theory Spec2Isabelle
  imports Complex_Main "HOL-Library.Sublist"
begin

section \<open>JavaScript values\<close>

text \<open>
  The reasoning engine (\<^verbatim>\<open>src/reasoning-engine.js\<close>) works on what \<^verbatim>\<open>JSON.parse\<close>
  returns and on plain values handed in by its callers. A value is \<^verbatim>\<open>undefined\<close>,
  \<^verbatim>\<open>null\<close>, a boolean, a number, a string, an array or a plain object.

  \<^item> A string is a list of \<^typ>\<open>char\<close>; one \<^typ>\<open>char\<close> stands for one code unit, so
    \<^verbatim>\<open>length\<close>, \<^verbatim>\<open>substring\<close> and \<^verbatim>\<open>includes\<close> count as the source does.
  \<^item> A number is the rational it denotes; rounding to a double and the values
    \<^verbatim>\<open>NaN\<close> and \<^verbatim>\<open>Infinity\<close> are not represented (\<^verbatim>\<open>JSON.parse\<close> never returns
    \<^verbatim>\<open>NaN\<close>). Where an operation of the source yields \<^verbatim>\<open>NaN\<close> the model has \<open>None\<close>.
  \<^item> An object is the list of its own properties in insertion order; a lookup takes the
    first entry of a key and an assignment replaces it in place or appends.
  \<^item> An array carries its elements and, second, the named properties assigned to it
    (empty for every array that \<^verbatim>\<open>JSON.parse\<close> returns).
\<close>

datatype jv =
    JUndef
  | JNull
  | JBool bool
  | JNum rat
  | JStr string
  | JArr "jv list" "(string \<times> jv) list"
  | JObj "(string \<times> jv) list"

text \<open>
  The file is an ES module (it ends in an \<^verbatim>\<open>export\<close> statement), so it runs in strict
  mode. \<open>TypeError\<close> is the engine's own exception (a property of \<^verbatim>\<open>null\<close> or
  \<^verbatim>\<open>undefined\<close>, a call of something that is no function, an assignment to a property
  of a primitive); \<open>SyntaxError\<close> is the one of \<^verbatim>\<open>JSON.parse\<close>; \<open>Error m\<close> is
  \<^verbatim>\<open>new Error(m)\<close> as the source throws it.
\<close>

datatype error = TypeError | SyntaxError | Error string

type_synonym 'a result = "error + 'a"

definition bind :: "'a result \<Rightarrow> ('a \<Rightarrow> 'b result) \<Rightarrow> 'b result" where
  "bind m f = (case m of Inl e \<Rightarrow> Inl e | Inr x \<Rightarrow> f x)"

text \<open>What the engine's runtime supplies and the source only calls.\<close>

record platform =
  json_parse :: "string \<Rightarrow> jv option"
  json_stringify :: "jv \<Rightarrow> nat \<Rightarrow> string"
  number_to_string :: "rat \<Rightarrow> string"
  string_to_number :: "string \<Rightarrow> rat option"

text \<open>
  \<open>json_parse\<close> is \<^verbatim>\<open>JSON.parse\<close> (\<open>None\<close> when it throws), \<open>json_stringify v n\<close> is
  \<^verbatim>\<open>JSON.stringify(v, null, n)\<close>, \<open>number_to_string\<close> is the conversion of a number to
  text, \<open>string_to_number\<close> the conversion of text to a number (\<open>None\<close> for \<^verbatim>\<open>NaN\<close>).
\<close>

subsection \<open>Truthiness, \<^verbatim>\<open>typeof\<close>, decimal positions\<close>

fun truthy :: "jv \<Rightarrow> bool" where
  "truthy JUndef = False"
| "truthy JNull = False"
| "truthy (JBool b) = b"
| "truthy (JNum r) = (r \<noteq> 0)"
| "truthy (JStr s) = (s \<noteq> [])"
| "truthy (JArr xs ps) = True"
| "truthy (JObj kvs) = True"

fun is_number :: "jv \<Rightarrow> bool" where
  "is_number (JNum r) = True"
| "is_number v = False"

fun is_string :: "jv \<Rightarrow> bool" where
  "is_string (JStr s) = True"
| "is_string v = False"

fun is_array :: "jv \<Rightarrow> bool" where
  "is_array (JArr xs ps) = True"
| "is_array v = False"

text \<open>An object or an array: what can be given a property.\<close>

fun is_object :: "jv \<Rightarrow> bool" where
  "is_object (JObj kvs) = True"
| "is_object (JArr xs ps) = True"
| "is_object v = False"

definition digit_char :: "nat \<Rightarrow> char" where
  "digit_char d = ''0123456789'' ! d"

text \<open>
  The text of a position or of an array index: a non-negative integer (far below
  \<open>10\<^sup>2\<^sup>1\<close>) in decimal digits.
\<close>

fun nat_to_string :: "nat \<Rightarrow> string" where
  "nat_to_string n =
     (if n < 10 then [digit_char n] else nat_to_string (n div 10) @ [digit_char (n mod 10)])"

declare nat_to_string.simps [simp del]

subsection \<open>Properties\<close>

definition index_of_key :: "string \<Rightarrow> nat \<Rightarrow> nat option" where
  "index_of_key k n = List.find (\<lambda>i. nat_to_string i = k) [0..<n]"

definition lookup :: "(string \<times> jv) list \<Rightarrow> string \<Rightarrow> jv" where
  "lookup kvs k = (case map_of kvs k of None \<Rightarrow> JUndef | Some v \<Rightarrow> v)"

text \<open>
  \<open>get_prop v k\<close> is \<^verbatim>\<open>v[k]\<close> for the property names the source reads as data
  (\<^verbatim>\<open>metadata\<close>, \<^verbatim>\<open>shots\<close>, \<^verbatim>\<open>prompt\<close>, \<^verbatim>\<open>length\<close>, ...): none of them names a method
  of a prototype, so on a primitive and on an array every name but \<^verbatim>\<open>length\<close> and the
  indices is \<^verbatim>\<open>undefined\<close> unless it was assigned.
\<close>

fun get_prop :: "jv \<Rightarrow> string \<Rightarrow> jv result" where
  "get_prop JUndef k = Inl TypeError"
| "get_prop JNull k = Inl TypeError"
| "get_prop (JBool b) k = Inr JUndef"
| "get_prop (JNum r) k = Inr JUndef"
| "get_prop (JStr s) k =
     Inr (if k = ''length'' then JNum (of_nat (length s))
          else case index_of_key k (length s) of
                 Some i \<Rightarrow> JStr [s ! i]
               | None \<Rightarrow> JUndef)"
| "get_prop (JArr xs ps) k =
     Inr (if k = ''length'' then JNum (of_nat (length xs))
          else case index_of_key k (length xs) of
                 Some i \<Rightarrow> xs ! i
               | None \<Rightarrow> lookup ps k)"
| "get_prop (JObj kvs) k = Inr (lookup kvs k)"

fun assign :: "(string \<times> jv) list \<Rightarrow> string \<Rightarrow> jv \<Rightarrow> (string \<times> jv) list" where
  "assign [] k v = [(k, v)]"
| "assign ((k', v') # kvs) k v =
     (if k' = k then (k', v) # kvs else (k', v') # assign kvs k v)"

text \<open>
  \<open>set_prop o k v\<close> is the statement \<^verbatim>\<open>o[k] = v\<close> for the names the source assigns
  (\<^verbatim>\<open>metadata\<close>, \<^verbatim>\<open>confidence_score\<close>, \<^verbatim>\<open>interpretations\<close>, \<^verbatim>\<open>missing_info\<close>,
  \<^verbatim>\<open>characters\<close>, \<^verbatim>\<open>environments\<close>), returning the object as it is afterwards. In strict
  mode an assignment to a property of a primitive throws.
\<close>

fun set_prop :: "jv \<Rightarrow> string \<Rightarrow> jv \<Rightarrow> jv result" where
  "set_prop (JObj kvs) k v = Inr (JObj (assign kvs k v))"
| "set_prop (JArr xs ps) k v = Inr (JArr xs (assign ps k v))"
| "set_prop w k v = Inl TypeError"

text \<open>A name that is neither \<^verbatim>\<open>length\<close> nor an array index.\<close>

definition named :: "string \<Rightarrow> bool" where
  "named k \<longleftrightarrow> k \<noteq> ''length'' \<and> (k = [] \<or> hd k \<notin> set ''0123456789'')"

text \<open>The own enumerable properties, as an object spread \<^verbatim>\<open>{...v}\<close> copies them.\<close>

fun indexed :: "nat \<Rightarrow> jv list \<Rightarrow> (string \<times> jv) list" where
  "indexed i [] = []"
| "indexed i (x # xs) = (nat_to_string i, x) # indexed (Suc i) xs"

fun own_props :: "jv \<Rightarrow> (string \<times> jv) list" where
  "own_props (JObj kvs) = kvs"
| "own_props (JArr xs ps) = indexed 0 xs @ ps"
| "own_props (JStr s) = indexed 0 (map (\<lambda>c. JStr [c]) s)"
| "own_props v = []"

section \<open>The validator\<close>

text \<open>
  \<^verbatim>\<open>validateArchitecture\<close> (lines 439-467). The mutation of \<^verbatim>\<open>arch\<close> and of
  \<^verbatim>\<open>arch.metadata\<close> in place is the returned, updated value.
\<close>

definition required :: "string list" where
  "required = [''metadata'', ''project'', ''global_style'', ''shots'']"

fun missing_fields :: "jv \<Rightarrow> string list \<Rightarrow> string list result" where
  "missing_fields arch [] = Inr []"
| "missing_fields arch (f # fs) =
     bind (get_prop arch f) (\<lambda>v.
     bind (missing_fields arch fs) (\<lambda>rest.
     Inr (if \<not> truthy v then f # rest else rest)))"

fun join_strings :: "string \<Rightarrow> string list \<Rightarrow> string" where
  "join_strings sep [] = []"
| "join_strings sep [x] = x"
| "join_strings sep (x # y # ys) = x @ sep @ join_strings sep (y # ys)"

definition shot_ok :: "jv \<Rightarrow> bool result" where
  "shot_ok shot =
     bind (get_prop shot ''prompt'') (\<lambda>p.
     if \<not> truthy p then Inr False
     else bind (get_prop p ''full_prompt'') (\<lambda>fp. Inr (truthy fp)))"

fun check_shots :: "nat \<Rightarrow> jv list \<Rightarrow> unit result" where
  "check_shots i [] = Inr ()"
| "check_shots i (shot # shots) =
     bind (shot_ok shot) (\<lambda>ok.
     if \<not> ok then Inl (Error (''Shot '' @ nat_to_string (i + 1) @ '' missing full_prompt''))
     else check_shots (i + 1) shots)"

definition for_each_shot :: "jv \<Rightarrow> unit result" where
  "for_each_shot shots = (case shots of JArr xs ps \<Rightarrow> check_shots 0 xs | _ \<Rightarrow> Inl TypeError)"

definition default_confidence :: "jv \<Rightarrow> jv result" where
  "default_confidence arch =
     bind (get_prop arch ''metadata'') (\<lambda>md.
     bind (get_prop md ''confidence_score'') (\<lambda>cs.
     if \<not> is_number cs then
       bind (set_prop md ''confidence_score'' (JNum (4 / 5))) (\<lambda>md'.
       set_prop arch ''metadata'' md')
     else Inr arch))"

text \<open>\<^verbatim>\<open>v || []\<close>\<close>

definition or_empty :: "jv \<Rightarrow> jv" where
  "or_empty v = (if truthy v then v else JArr [] [])"

definition default_array :: "string \<Rightarrow> jv \<Rightarrow> jv result" where
  "default_array k arch =
     bind (get_prop arch k) (\<lambda>v.
     set_prop arch k (or_empty v))"

definition validateArchitecture :: "jv \<Rightarrow> jv result" where
  "validateArchitecture arch =
     bind (missing_fields arch required) (\<lambda>missing.
     if length missing > 0 then
       Inl (Error (''Architecture missing required fields: '' @ join_strings '', '' missing))
     else
       bind (get_prop arch ''shots'') (\<lambda>shots.
       bind (for_each_shot shots) (\<lambda>_.
       bind (default_confidence arch) (\<lambda>a1.
       bind (default_array ''interpretations'' a1) (\<lambda>a2.
       bind (default_array ''missing_info'' a2) (\<lambda>a3.
       bind (default_array ''characters'' a3) (\<lambda>a4.
       default_array ''environments'' a4)))))))"

section \<open>Conversions\<close>

text \<open>
  The conversion of a value to text, as a template literal and \<^verbatim>\<open>join\<close> perform it.
  A plain object has the text \<^verbatim>\<open>[object Object]\<close>; an own property \<^verbatim>\<open>toString\<close> (never
  a function here) leaves it without a usable conversion, which throws. An array is its
  elements joined by a comma, \<^verbatim>\<open>null\<close> and \<^verbatim>\<open>undefined\<close> elements being empty; an own
  property \<^verbatim>\<open>join\<close> makes it \<^verbatim>\<open>[object Array]\<close> instead.
\<close>

fun to_string :: "platform \<Rightarrow> jv \<Rightarrow> string result"
  and join_elems :: "platform \<Rightarrow> string \<Rightarrow> jv list \<Rightarrow> string result"
  and elem_string :: "platform \<Rightarrow> jv \<Rightarrow> string result"
where
  "to_string P JUndef = Inr ''undefined''"
| "to_string P JNull = Inr ''null''"
| "to_string P (JBool b) = Inr (if b then ''true'' else ''false'')"
| "to_string P (JNum r) = Inr (number_to_string P r)"
| "to_string P (JStr s) = Inr s"
| "to_string P (JArr xs ps) =
     (if ''toString'' \<in> fst ` set ps then Inl TypeError
      else if ''join'' \<in> fst ` set ps then Inr ''[object Array]''
      else join_elems P '','' xs)"
| "to_string P (JObj kvs) =
     (if ''toString'' \<in> fst ` set kvs then Inl TypeError else Inr ''[object Object]'')"
| "join_elems P sep [] = Inr []"
| "join_elems P sep [x] = elem_string P x"
| "join_elems P sep (x # y # ys) =
     (case elem_string P x of
        Inl e \<Rightarrow> Inl e
      | Inr a \<Rightarrow> (case join_elems P sep (y # ys) of
                    Inl e \<Rightarrow> Inl e
                  | Inr b \<Rightarrow> Inr (a @ sep @ b)))"
| "elem_string P JUndef = Inr []"
| "elem_string P JNull = Inr []"
| "elem_string P (JBool b) = to_string P (JBool b)"
| "elem_string P (JNum r) = to_string P (JNum r)"
| "elem_string P (JStr s) = to_string P (JStr s)"
| "elem_string P (JArr xs ps) = to_string P (JArr xs ps)"
| "elem_string P (JObj kvs) = to_string P (JObj kvs)"

text \<open>\<^verbatim>\<open>a.join(sep)\<close>: a method of arrays only.\<close>

definition js_join :: "platform \<Rightarrow> jv \<Rightarrow> string \<Rightarrow> string result" where
  "js_join P a sep = (case a of JArr xs ps \<Rightarrow> join_elems P sep xs | _ \<Rightarrow> Inl TypeError)"

text \<open>The conversion to a number that a comparison with a number performs.\<close>

definition to_number :: "platform \<Rightarrow> jv \<Rightarrow> rat option result" where
  "to_number P v =
     (case v of
        JUndef \<Rightarrow> Inr None
      | JNull \<Rightarrow> Inr (Some 0)
      | JBool b \<Rightarrow> Inr (Some (if b then 1 else 0))
      | JNum r \<Rightarrow> Inr (Some r)
      | JStr s \<Rightarrow> Inr (string_to_number P s)
      | _ \<Rightarrow> bind (to_string P v) (\<lambda>s. Inr (string_to_number P s)))"

text \<open>\<^verbatim>\<open>v >= t\<close>, \<^verbatim>\<open>v < t\<close> and \<^verbatim>\<open>v > t\<close> for a number \<open>t\<close>: false on \<^verbatim>\<open>NaN\<close>.\<close>

definition js_ge :: "platform \<Rightarrow> jv \<Rightarrow> rat \<Rightarrow> bool result" where
  "js_ge P v t = bind (to_number P v) (\<lambda>n. Inr (case n of None \<Rightarrow> False | Some r \<Rightarrow> r \<ge> t))"

definition js_lt :: "platform \<Rightarrow> jv \<Rightarrow> rat \<Rightarrow> bool result" where
  "js_lt P v t = bind (to_number P v) (\<lambda>n. Inr (case n of None \<Rightarrow> False | Some r \<Rightarrow> r < t))"

definition js_gt :: "platform \<Rightarrow> jv \<Rightarrow> rat \<Rightarrow> bool result" where
  "js_gt P v t = bind (to_number P v) (\<lambda>n. Inr (case n of None \<Rightarrow> False | Some r \<Rightarrow> r > t))"

subsection \<open>Array methods\<close>

text \<open>
  \<^verbatim>\<open>a.filter(f)\<close> and \<^verbatim>\<open>a.map(f)\<close> with a callback that may throw; on anything but an
  array the method is \<^verbatim>\<open>undefined\<close> and the call throws.
\<close>

fun filter_r :: "(jv \<Rightarrow> bool result) \<Rightarrow> jv list \<Rightarrow> jv list result" where
  "filter_r f [] = Inr []"
| "filter_r f (x # xs) =
     bind (f x) (\<lambda>keep.
     bind (filter_r f xs) (\<lambda>rest.
     Inr (if keep then x # rest else rest)))"

fun map_r :: "('a \<Rightarrow> 'b result) \<Rightarrow> 'a list \<Rightarrow> 'b list result" where
  "map_r f [] = Inr []"
| "map_r f (x # xs) =
     bind (f x) (\<lambda>y.
     bind (map_r f xs) (\<lambda>rest.
     Inr (y # rest)))"

definition js_filter :: "jv \<Rightarrow> (jv \<Rightarrow> bool result) \<Rightarrow> jv list result" where
  "js_filter a f = (case a of JArr xs ps \<Rightarrow> filter_r f xs | _ \<Rightarrow> Inl TypeError)"

definition js_map :: "jv \<Rightarrow> (jv \<Rightarrow> 'b result) \<Rightarrow> 'b list result" where
  "js_map a f = (case a of JArr xs ps \<Rightarrow> map_r f xs | _ \<Rightarrow> Inl TypeError)"

section \<open>The confidence gate\<close>

text \<open>
  The part of \<^verbatim>\<open>processWithConfidenceGating\<close> (lines 193-229) after the architecture
  has been generated: a function of \<^verbatim>\<open>result\<close>.
\<close>

definition is_critical :: "jv \<Rightarrow> bool result" where
  "is_critical q =
     bind (get_prop q ''criticality'') (\<lambda>c.
     if c = JStr ''high'' then Inr True
     else bind (get_prop q ''default_used'') (\<lambda>d. Inr (\<not> truthy d)))"

definition question_of :: "jv \<Rightarrow> jv result" where
  "question_of q =
     bind (get_prop q ''question'') (\<lambda>a.
     bind (get_prop q ''why_it_matters'') (\<lambda>b.
     bind (get_prop q ''default_used'') (\<lambda>c.
     Inr (JObj [(''question'', a), (''context'', b), (''currentAssumption'', c)]))))"

definition is_uncertain :: "platform \<Rightarrow> jv \<Rightarrow> bool result" where
  "is_uncertain P i = bind (get_prop i ''confidence'') (\<lambda>c. js_lt P c (7 / 10))"

definition caveat_of :: "jv \<Rightarrow> jv result" where
  "caveat_of i =
     bind (get_prop i ''element'') (\<lambda>a.
     bind (get_prop i ''interpretation'') (\<lambda>b.
     bind (get_prop i ''alternatives'') (\<lambda>c.
     Inr (JObj [(''element'', a), (''interpretation'', b), (''alternatives'', c)]))))"

definition confidence_gate :: "platform \<Rightarrow> jv \<Rightarrow> jv result" where
  "confidence_gate P result =
     bind (get_prop result ''metadata'') (\<lambda>md.
     bind (get_prop md ''confidence_score'') (\<lambda>cs.
     bind (js_ge P cs (7 / 10)) (\<lambda>high.
     if high then
       Inr (JObj [(''status'', JStr ''complete''), (''architecture'', result)])
     else
       bind (get_prop result ''missing_info'') (\<lambda>mi.
       bind (js_filter (or_empty mi) is_critical) (\<lambda>selected.
       let criticalQuestions = take 3 selected in
       if length criticalQuestions > 0 then
         bind (map_r question_of criticalQuestions) (\<lambda>qs.
         Inr (JObj [(''status'', JStr ''needs_clarification''),
                    (''architecture'', result),
                    (''questions'', JArr qs [])]))
       else
         bind (get_prop result ''interpretations'') (\<lambda>its.
         bind (js_filter (or_empty its) (is_uncertain P)) (\<lambda>low.
         bind (map_r caveat_of low) (\<lambda>cvs.
         Inr (JObj [(''status'', JStr ''complete_with_caveats''),
                    (''architecture'', result),
                    (''caveats'', JArr cvs [])])))))))))"

section \<open>The response extractor\<close>

text \<open>
  \<^verbatim>\<open>parseResponse\<close> (lines 415-437). \<open>remove_all pat s\<close> is
  \<^verbatim>\<open>s.replace(/pat\n?/g, '')\<close> for a literal, non-empty \<open>pat\<close>: scanning from the left,
  every match of \<open>pat\<close> is dropped together with a line feed that follows it.
\<close>

definition js_includes :: "string \<Rightarrow> string \<Rightarrow> bool" where
  "js_includes s pat = sublist pat s"

definition after_match :: "string \<Rightarrow> string \<Rightarrow> string" where
  "after_match pat s =
     (if prefix ''\<newline>'' (drop (length pat) s) then drop (Suc (length pat)) s
      else drop (length pat) s)"

function remove_all :: "string \<Rightarrow> string \<Rightarrow> string" where
  "remove_all pat s =
     (if s = [] \<or> pat = [] then s
      else if prefix pat s then remove_all pat (after_match pat s)
      else hd s # remove_all pat (tl s))"
  by pat_completeness auto
termination
  by (relation "measure (\<lambda>(pat, s). length s)") (auto simp: after_match_def)

declare remove_all.simps [simp del]

definition strip_fences :: "string \<Rightarrow> string" where
  "strip_fences s =
     (if js_includes s ''```json'' then remove_all ''```'' (remove_all ''```json'' s)
      else if js_includes s ''```'' then remove_all ''```'' s
      else s)"

text \<open>
  \<^verbatim>\<open>trim\<close> drops white space and line terminators at both ends; among the code units
  below 256 these are the six control characters, the space and the no-break space.
\<close>

definition is_space :: "char \<Rightarrow> bool" where
  "is_space c \<longleftrightarrow> (of_char c :: nat) \<in> {9, 10, 11, 12, 13, 32, 160}"

definition trim :: "string \<Rightarrow> string" where
  "trim s = rev (dropWhile is_space (rev (dropWhile is_space s)))"

text \<open>One call of \<^verbatim>\<open>console.error\<close> is the list of its arguments.\<close>

datatype log_arg = LStr string | LErr error

text \<open>
  The result and what was written to the console. A response that is no string has
  neither \<^verbatim>\<open>includes\<close> nor \<^verbatim>\<open>trim\<close>: the call throws before the \<^verbatim>\<open>try\<close>
  block is entered.
\<close>

definition parseResponse :: "platform \<Rightarrow> jv \<Rightarrow> jv result \<times> log_arg list list" where
  "parseResponse P responseText =
     (case responseText of
        JStr text \<Rightarrow>
          (let jsonStr = trim (strip_fences text) in
           case (case json_parse P jsonStr of
                   None \<Rightarrow> Inl SyntaxError
                 | Some parsed \<Rightarrow> validateArchitecture parsed) of
             Inr arch \<Rightarrow> (Inr arch, [])
           | Inl e \<Rightarrow>
               (Inl (Error ''Failed to parse architecture response as JSON''),
                [[LStr ''Failed to parse response:'', LErr e],
                 [LStr ''Response was:'', LStr (take 500 jsonStr)]]))
      | _ \<Rightarrow> (Inl TypeError, []))"

section \<open>The prompt assembler\<close>

text \<open>\<^verbatim>\<open>a.map((x, i) => f(x, i))\<close> on the elements of an array, \<open>i\<close> counting from \<open>n\<close>.\<close>

fun map_index_r :: "(jv \<Rightarrow> nat \<Rightarrow> 'b result) \<Rightarrow> nat \<Rightarrow> jv list \<Rightarrow> 'b list result" where
  "map_index_r f n [] = Inr []"
| "map_index_r f n (x # xs) =
     bind (f x n) (\<lambda>y.
     bind (map_index_r f (Suc n) xs) (\<lambda>rest.
     Inr (y # rest)))"

definition js_map_index :: "jv \<Rightarrow> (jv \<Rightarrow> nat \<Rightarrow> 'b result) \<Rightarrow> 'b list result" where
  "js_map_index a f = (case a of JArr xs ps \<Rightarrow> map_index_r f 0 xs | _ \<Rightarrow> Inl TypeError)"

text \<open>\<^verbatim>\<open>formatStructuredInput\<close> (lines 348-368); \<open>parts\<close> grows by \<^verbatim>\<open>push\<close>.\<close>

definition labelled :: "platform \<Rightarrow> string \<Rightarrow> jv \<Rightarrow> string list \<Rightarrow> string list result" where
  "labelled P label v parts =
     (if truthy v then bind (to_string P v) (\<lambda>s. Inr (parts @ [label @ s])) else Inr parts)"

definition character_line :: "platform \<Rightarrow> jv \<Rightarrow> string result" where
  "character_line P c =
     bind (get_prop c ''name'') (\<lambda>n.
     bind (to_string P n) (\<lambda>ns.
     bind (get_prop c ''description'') (\<lambda>d.
     bind (to_string P d) (\<lambda>ds.
     Inr (''- '' @ ns @ '': '' @ ds)))))"

definition numbered_line :: "platform \<Rightarrow> jv \<Rightarrow> nat \<Rightarrow> string result" where
  "numbered_line P s i = bind (to_string P s) (\<lambda>t. Inr (nat_to_string (i + 1) @ ''. '' @ t))"

definition formatStructuredInput :: "platform \<Rightarrow> jv \<Rightarrow> string result" where
  "formatStructuredInput P input =
     bind (get_prop input ''concept'') (\<lambda>concept.
     bind (labelled P ''Concept: '' concept []) (\<lambda>p1.
     bind (get_prop input ''tone'') (\<lambda>tone.
     bind (if truthy tone then
             bind (if is_array tone then js_join P tone '', '' else to_string P tone) (\<lambda>t.
             Inr (p1 @ [''Tone: '' @ t]))
           else Inr p1) (\<lambda>p2.
     bind (get_prop input ''narrative'') (\<lambda>narrative.
     bind (labelled P ''Narrative: '' narrative p2) (\<lambda>p3.
     bind (get_prop input ''characters'') (\<lambda>characters.
     bind (if truthy characters then
             bind (js_map characters (character_line P)) (\<lambda>ls.
             Inr (p3 @ [''Characters:\<newline>'' @ join_strings ''\<newline>'' ls]))
           else Inr p3) (\<lambda>p4.
     bind (get_prop input ''shots'') (\<lambda>shots.
     bind (if truthy shots then
             bind (js_map_index shots (numbered_line P)) (\<lambda>ls.
             Inr (p4 @ [''Shot ideas:\<newline>'' @ join_strings ''\<newline>'' ls]))
           else Inr p4) (\<lambda>p5.
     bind (get_prop input ''style'') (\<lambda>style.
     bind (labelled P ''Style notes: '' style p5) (\<lambda>p6.
     bind (get_prop input ''constraints'') (\<lambda>constraints.
     bind (labelled P ''Constraints: '' constraints p6) (\<lambda>p7.
     Inr (join_strings ''\<newline>\<newline>'' p7)))))))))))))))"

text \<open>\<^verbatim>\<open>buildUserPrompt\<close> (lines 292-346).\<close>

definition reference_line :: "platform \<Rightarrow> jv \<Rightarrow> nat \<Rightarrow> string result" where
  "reference_line P r i =
     bind (get_prop r ''description'') (\<lambda>d.
     bind (to_string P d) (\<lambda>ds.
     bind (get_prop r ''url'') (\<lambda>u.
     bind (if truthy u then bind (to_string P u) (\<lambda>us. Inr ('' ('' @ us @ '')'')) else Inr []) (\<lambda>link.
     Inr (nat_to_string (i + 1) @ ''. '' @ ds @ link)))))"

definition input_section :: "platform \<Rightarrow> jv \<Rightarrow> jv result" where
  "input_section P input =
     (if is_string input then Inr input
      else
        bind (get_prop input ''type'') (\<lambda>t.
        if t = JStr ''text'' then get_prop input ''content''
        else if t = JStr ''deck'' then
          bind (get_prop input ''filename'') (\<lambda>f.
          bind (to_string P f) (\<lambda>fs.
          bind (get_prop input ''parsedContent'') (\<lambda>c.
          bind (to_string P c) (\<lambda>cs.
          Inr (JStr (''[Parsed from deck: '' @ fs @ '']\<newline>\<newline>'' @ cs))))))
        else if t = JStr ''structured'' then
          bind (formatStructuredInput P input) (\<lambda>s. Inr (JStr s))
        else Inr (JStr [])))"

definition references_section :: "platform \<Rightarrow> jv \<Rightarrow> string result" where
  "references_section P input =
     bind (get_prop input ''references'') (\<lambda>refs.
     if \<not> truthy refs then Inr []
     else
       bind (get_prop refs ''length'') (\<lambda>len.
       bind (js_gt P len 0) (\<lambda>some.
       if \<not> some then Inr []
       else
         bind (js_map_index refs (reference_line P)) (\<lambda>ls.
         Inr (''\<newline>## Visual References\<newline>'' @ join_strings ''\<newline>'' ls)))))"

definition buildUserPrompt :: "platform \<Rightarrow> jv \<Rightarrow> jv \<Rightarrow> jv \<Rightarrow> jv \<Rightarrow> string result" where
  "buildUserPrompt P input platform shotCount brandContext =
     bind (input_section P input) (\<lambda>inputSection.
     bind (references_section P input) (\<lambda>referencesSection.
     bind (to_string P inputSection) (\<lambda>s1.
     bind (to_string P platform) (\<lambda>s2.
     bind (to_string P (if truthy shotCount then shotCount
                        else JStr ''infer from content (typically 4-8 for a :15-:30 spot)'')) (\<lambda>s3.
     bind (if truthy brandContext then
             bind (to_string P brandContext) (\<lambda>b. Inr (''- Brand context: '' @ b))
           else Inr []) (\<lambda>s4.
     Inr (''\<newline>## Creative Input\<newline>\<newline>'' @ s1 @ ''\<newline>'' @ referencesSection @
          ''\<newline>\<newline>## Requirements\<newline>\<newline>- Target platform: '' @ s2 @
          ''\<newline>- Number of shots: '' @ s3 @
          ''\<newline>- Output format: Complete JSON matching the prompt_architecture_schema\<newline>'' @ s4 @
          ''\<newline>\<newline>## Instructions\<newline>\<newline>Analyze this creative input and produce a complete prompt architecture.\<newline>\<newline>You MUST include:\<newline>1. All required schema fields (metadata, project, global_style, shots)\<newline>2. Copy/paste ready prompts for each shot in shots[].prompt.full_prompt\<newline>3. Component breakdown in shots[].prompt.prompt_components\<newline>4. All interpretive decisions you made in the interpretations[] array\<newline>5. Any questions that would improve the output in missing_info[]\<newline>\<newline>For EACH shot prompt, structure it as:\<newline>[Subject with full character description if applicable] + [Action/motion] + [Environment] + [Lighting] + [Camera/framing] + [Style/quality markers]\<newline>\<newline>Output valid JSON only. No markdown, no explanation outside the JSON.\<newline>'')))))))"

section \<open>Generation and refinement\<close>

text \<open>
  \<^verbatim>\<open>callClaudeAPI\<close> (lines 370-413). With a \<^verbatim>\<open>window\<close> the prompt is posted to the
  backend; \<open>fetch\<close> stands for that exchange, from the request body to the response or
  the failure of the request. Without one the function throws.
\<close>

record response =
  ok :: bool
  status :: nat
  json :: "jv result"

record environment =
  window_defined :: bool
  fetch :: "string \<Rightarrow> response result"
  now :: string

text \<open>\<open>now\<close> is \<^verbatim>\<open>new Date().toISOString()\<close>.\<close>

definition callClaudeAPI :: "platform \<Rightarrow> environment \<Rightarrow> string \<Rightarrow> jv result" where
  "callClaudeAPI P E userPrompt =
     (if window_defined E then
        bind (fetch E (json_stringify P (JObj [(''prompt'', JStr userPrompt)]) 0)) (\<lambda>r.
        if \<not> ok r then Inl (Error (''API call failed: '' @ nat_to_string (status r)))
        else bind (json r) (\<lambda>data. get_prop data ''content''))
      else Inl (Error ''Direct API calls require Node.js environment with Anthropic SDK''))"

text \<open>A destructuring default: it applies to \<^verbatim>\<open>undefined\<close> only.\<close>

definition default_to :: "jv \<Rightarrow> jv \<Rightarrow> jv" where
  "default_to d v = (if v = JUndef then d else v)"

text \<open>\<^verbatim>\<open>generateArchitecture\<close> (lines 159-185).\<close>

definition generateArchitecture :: "platform \<Rightarrow> environment \<Rightarrow> jv \<Rightarrow> jv \<Rightarrow> jv result" where
  "generateArchitecture P E creativeInput options =
     (let opts = default_to (JObj []) options in
      bind (get_prop opts ''platform'') (\<lambda>p.
      bind (get_prop opts ''shotCount'') (\<lambda>sc.
      bind (get_prop opts ''brandContext'') (\<lambda>bc.
      let platform = default_to (JStr ''platform-agnostic'') p;
          shotCount = default_to JNull sc;
          brandContext = default_to JNull bc in
      bind (buildUserPrompt P creativeInput platform shotCount brandContext) (\<lambda>userPrompt.
      bind (callClaudeAPI P E userPrompt) (\<lambda>response.
      bind (fst (parseResponse P response)) (\<lambda>architecture.
      bind (get_prop architecture ''metadata'') (\<lambda>md.
      set_prop architecture ''metadata''
        (JObj (assign (assign (assign (own_props md)
           ''schema_version'' (JStr ''1.0.0''))
           ''created_at'' (JStr (now E)))
           ''platform_target'' platform))))))))))"

text \<open>\<^verbatim>\<open>processWithConfidenceGating\<close> (lines 190-230).\<close>

definition processWithConfidenceGating :: "platform \<Rightarrow> environment \<Rightarrow> jv \<Rightarrow> jv \<Rightarrow> jv result" where
  "processWithConfidenceGating P E creativeInput options =
     bind (generateArchitecture P E creativeInput options) (confidence_gate P)"

text \<open>\<^verbatim>\<open>refineArchitecture\<close> (lines 235-272).\<close>

definition refinement_prompt :: "platform \<Rightarrow> jv \<Rightarrow> jv \<Rightarrow> jv \<Rightarrow> string result" where
  "refinement_prompt P currentArchitecture feedback targetShots =
     bind (to_string P feedback) (\<lambda>fb.
     bind (if truthy targetShots then
             bind (js_join P targetShots '', '') (\<lambda>ts.
             Inr (''Refine shots '' @ ts @
                  '' based on the feedback while maintaining continuity with other shots.''))
           else Inr ''Refine the entire architecture based on the feedback.'') (\<lambda>instruction.
     Inr (''\<newline>## Current Architecture\<newline>\<newline>'' @ json_stringify P currentArchitecture 2 @
          ''\<newline>\<newline>## Feedback\<newline>\<newline>'' @ fb @
          ''\<newline>\<newline>## Instructions\<newline>\<newline>'' @ instruction @
          ''\<newline>\<newline>Preserve all elements not addressed by the feedback. Maintain character consistency and continuity.\<newline>Output the complete updated architecture as valid JSON matching the schema.\<newline>'')))"

text \<open>\<^verbatim>\<open>feedback.substring(0, 100) + (feedback.length > 100 ? '...' : '')\<close>\<close>

definition refinement_note :: "jv \<Rightarrow> jv result" where
  "refinement_note feedback =
     (case feedback of
        JStr s \<Rightarrow> Inr (JStr (take 100 s @ (if length s > 100 then ''...'' else [])))
      | _ \<Rightarrow> Inl TypeError)"

definition refineArchitecture :: "platform \<Rightarrow> environment \<Rightarrow> jv \<Rightarrow> jv \<Rightarrow> jv \<Rightarrow> jv result" where
  "refineArchitecture P E currentArchitecture feedback options =
     (let opts = default_to (JObj []) options in
      bind (get_prop opts ''targetShots'') (\<lambda>ts.
      let targetShots = default_to JNull ts in
      bind (refinement_prompt P currentArchitecture feedback targetShots) (\<lambda>refinementPrompt.
      bind (callClaudeAPI P E refinementPrompt) (\<lambda>response.
      bind (fst (parseResponse P response)) (\<lambda>refined.
      bind (get_prop refined ''metadata'') (\<lambda>md.
      bind (refinement_note feedback) (\<lambda>note.
      set_prop refined ''metadata''
        (JObj (assign (assign (own_props md)
           ''updated_at'' (JStr (now E)))
           ''refinement_note'' note)))))))))"


section \<open>A reference runtime\<close>

text \<open>
  JSON text as ECMA-404 defines it, for the examples. Not reproduced: code units above
  255 (an escape naming one is rejected), the exponent notation of very large and very
  small numbers when they are shown, and number texts other than decimal ones.
  Properties with integer-like names keep their place in the text.
\<close>

definition is_json_ws :: "char \<Rightarrow> bool" where
  "is_json_ws c \<longleftrightarrow> c \<in> set [CHR '' '', CHR 0x09, CHR 0x0A, CHR 0x0D]"

definition skip_ws :: "string \<Rightarrow> string" where
  "skip_ws = dropWhile is_json_ws"

definition is_digit :: "char \<Rightarrow> bool" where
  "is_digit c \<longleftrightarrow> c \<in> set ''0123456789''"

definition hex_val :: "char \<Rightarrow> nat option" where
  "hex_val c = map_of (zip ''0123456789abcdefABCDEF'' ([0..<16] @ [10..<16])) c"

definition digits_val :: "string \<Rightarrow> nat" where
  "digits_val ds = foldl (\<lambda>a c. 10 * a + (case hex_val c of Some d \<Rightarrow> d | None \<Rightarrow> 0)) 0 ds"

definition hex4 :: "char \<Rightarrow> char \<Rightarrow> char \<Rightarrow> char \<Rightarrow> nat option" where
  "hex4 a b c d =
     (case (hex_val a, hex_val b, hex_val c, hex_val d) of
        (Some x, Some y, Some z, Some w) \<Rightarrow> Some (((x * 16 + y) * 16 + z) * 16 + w)
      | _ \<Rightarrow> None)"

definition escape_char :: "char \<Rightarrow> char option" where
  "escape_char e =
     map_of [(CHR 0x22, CHR 0x22), (CHR 0x5C, CHR 0x5C), (CHR ''/'', CHR ''/''),
             (CHR ''b'', CHR 0x08), (CHR ''f'', CHR 0x0C), (CHR ''n'', CHR 0x0A),
             (CHR ''r'', CHR 0x0D), (CHR ''t'', CHR 0x09)] e"

text \<open>The characters of a string after its opening quote, up to the closing one.\<close>

fun parse_chars :: "string \<Rightarrow> (string \<times> string) option" where
  "parse_chars [] = None"
| "parse_chars (c # cs) =
     (if c = CHR 0x22 then Some ([], cs)
      else if c = CHR 0x5C then
        (case cs of
           [] \<Rightarrow> None
         | e # rest \<Rightarrow>
             if e = CHR ''u'' then
               (case rest of
                  a # b # c' # d # rest' \<Rightarrow>
                    (case hex4 a b c' d of
                       None \<Rightarrow> None
                     | Some n \<Rightarrow>
                         if n < 256 then
                           (case parse_chars rest' of
                              None \<Rightarrow> None
                            | Some (s, r) \<Rightarrow> Some (char_of n # s, r))
                         else None)
                | _ \<Rightarrow> None)
             else
               (case escape_char e of
                  None \<Rightarrow> None
                | Some x \<Rightarrow>
                    (case parse_chars rest of
                       None \<Rightarrow> None
                     | Some (s, r) \<Rightarrow> Some (x # s, r))))
      else if (of_char c :: nat) < 32 then None
      else (case parse_chars cs of
              None \<Rightarrow> None
            | Some (s, r) \<Rightarrow> Some (c # s, r)))"

text \<open>A number: sign, integer part without a leading zero, fraction, exponent.\<close>

definition parse_number :: "string \<Rightarrow> (rat \<times> string) option" where
  "parse_number cs =
     (let neg = (cs \<noteq> [] \<and> hd cs = CHR ''-'');
          r1 = (if neg then tl cs else cs);
          ip = takeWhile is_digit r1;
          r2 = dropWhile is_digit r1;
          has_frac = (r2 \<noteq> [] \<and> hd r2 = CHR ''.'');
          fp = (if has_frac then takeWhile is_digit (tl r2) else []);
          r3 = (if has_frac then dropWhile is_digit (tl r2) else r2);
          has_exp = (r3 \<noteq> [] \<and> hd r3 \<in> set ''eE'');
          r4 = (if has_exp then tl r3 else r3);
          eneg = (has_exp \<and> r4 \<noteq> [] \<and> hd r4 = CHR ''-'');
          r5 = (if has_exp \<and> r4 \<noteq> [] \<and> hd r4 \<in> set ''+-'' then tl r4 else r4);
          ep = (if has_exp then takeWhile is_digit r5 else []);
          r6 = (if has_exp then dropWhile is_digit r5 else r3);
          m = (of_nat (digits_val ip) + of_nat (digits_val fp) / 10 ^ length fp :: rat);
          v = (if eneg then m / 10 ^ digits_val ep else m * 10 ^ digits_val ep)
      in if ip = [] \<or> (length ip > 1 \<and> hd ip = CHR ''0'') \<or> (has_frac \<and> fp = []) \<or> (has_exp \<and> ep = [])
         then None
         else Some (if neg then - v else v, r6))"

fun parse_value :: "nat \<Rightarrow> string \<Rightarrow> (jv \<times> string) option"
  and parse_elements :: "nat \<Rightarrow> string \<Rightarrow> jv list \<Rightarrow> (jv \<times> string) option"
  and parse_members :: "nat \<Rightarrow> string \<Rightarrow> (string \<times> jv) list \<Rightarrow> (jv \<times> string) option"
where
  "parse_value 0 cs = None"
| "parse_value (Suc n) cs =
     (case skip_ws cs of
        [] \<Rightarrow> None
      | c # rest \<Rightarrow>
          if c = CHR ''{'' then
            (if prefix ''}'' (skip_ws rest) then Some (JObj [], tl (skip_ws rest))
             else parse_members n rest [])
          else if c = CHR ''['' then
            (if prefix '']'' (skip_ws rest) then Some (JArr [] [], tl (skip_ws rest))
             else parse_elements n rest [])
          else if c = CHR 0x22 then
            (case parse_chars rest of None \<Rightarrow> None | Some (s, r) \<Rightarrow> Some (JStr s, r))
          else if prefix ''true'' (c # rest) then Some (JBool True, drop 4 (c # rest))
          else if prefix ''false'' (c # rest) then Some (JBool False, drop 5 (c # rest))
          else if prefix ''null'' (c # rest) then Some (JNull, drop 4 (c # rest))
          else (case parse_number (c # rest) of None \<Rightarrow> None | Some (x, r) \<Rightarrow> Some (JNum x, r)))"
| "parse_elements 0 cs acc = None"
| "parse_elements (Suc n) cs acc =
     (case parse_value n cs of
        None \<Rightarrow> None
      | Some (v, r) \<Rightarrow>
          (case skip_ws r of
             [] \<Rightarrow> None
           | c # r' \<Rightarrow>
               if c = CHR '','' then parse_elements n r' (acc @ [v])
               else if c = CHR '']'' then Some (JArr (acc @ [v]) [], r')
               else None))"
| "parse_members 0 cs acc = None"
| "parse_members (Suc n) cs acc =
     (case skip_ws cs of
        [] \<Rightarrow> None
      | q # r0 \<Rightarrow>
          if q \<noteq> CHR 0x22 then None
          else
            (case parse_chars r0 of
               None \<Rightarrow> None
             | Some (k, r1) \<Rightarrow>
                 if \<not> prefix '':'' (skip_ws r1) then None
                 else
                   (case parse_value n (tl (skip_ws r1)) of
                      None \<Rightarrow> None
                    | Some (v, r2) \<Rightarrow>
                        (case skip_ws r2 of
                           [] \<Rightarrow> None
                         | c # r3 \<Rightarrow>
                             if c = CHR '','' then parse_members n r3 (assign acc k v)
                             else if c = CHR ''}'' then Some (JObj (assign acc k v), r3)
                             else None))))"

definition parse_json :: "string \<Rightarrow> jv option" where
  "parse_json text =
     (case parse_value (2 * length text + 2) text of
        None \<Rightarrow> None
      | Some (v, r) \<Rightarrow> if skip_ws r = [] then Some v else None)"

text \<open>
  A number as text: the digits of its integer part and, after a point, those of its
  fraction (at most thirty of them).
\<close>

fun fraction_digits :: "nat \<Rightarrow> rat \<Rightarrow> string" where
  "fraction_digits 0 f = []"
| "fraction_digits (Suc n) f =
     (if f = 0 then []
      else digit_char (nat \<lfloor>f * 10\<rfloor>) # fraction_digits n (f * 10 - of_int \<lfloor>f * 10\<rfloor>))"

definition show_number :: "rat \<Rightarrow> string" where
  "show_number r =
     (let a = \<bar>r\<bar>; f = a - of_int \<lfloor>a\<rfloor>
      in (if r < 0 then ''-'' else []) @ nat_to_string (nat \<lfloor>a\<rfloor>) @
         (if f = 0 then [] else ''.'' @ fraction_digits 30 f))"

text \<open>The text of a decimal number, spaces around it allowed; the empty text is 0.\<close>

definition read_number :: "string \<Rightarrow> rat option" where
  "read_number s =
     (let t = skip_ws (rev (skip_ws (rev s)))
      in if t = [] then Some 0
         else (case parse_number (if prefix ''+'' t then tl t else t) of
                 None \<Rightarrow> None
               | Some (x, r) \<Rightarrow> if r = [] then Some x else None))"

definition hex_digit :: "nat \<Rightarrow> char" where
  "hex_digit d = ''0123456789abcdef'' ! d"

definition quote_char :: "char \<Rightarrow> string" where
  "quote_char c =
     (if c = CHR 0x22 then [CHR 0x5C, CHR 0x22]
      else if c = CHR 0x5C then [CHR 0x5C, CHR 0x5C]
      else if c = CHR 0x08 then [CHR 0x5C, CHR ''b'']
      else if c = CHR 0x0C then [CHR 0x5C, CHR ''f'']
      else if c = CHR 0x0A then [CHR 0x5C, CHR ''n'']
      else if c = CHR 0x0D then [CHR 0x5C, CHR ''r'']
      else if c = CHR 0x09 then [CHR 0x5C, CHR ''t'']
      else if (of_char c :: nat) < 32 then
        [CHR 0x5C, CHR ''u'', CHR ''0'', CHR ''0'', hex_digit (of_char c div 16), hex_digit (of_char c mod 16)]
      else [c])"

definition quote :: "string \<Rightarrow> string" where
  "quote s = [CHR 0x22] @ concat (map quote_char s) @ [CHR 0x22]"

text \<open>
  \<open>show_json gap ind v\<close>: the text of \<open>v\<close>, nested values indented by \<open>gap\<close> more than
  the current indentation \<open>ind\<close> (no line breaks at all when \<open>gap\<close> is empty). A property
  whose value is \<^verbatim>\<open>undefined\<close> is left out; such an element of an array is \<^verbatim>\<open>null\<close>.
\<close>

fun show_json :: "string \<Rightarrow> string \<Rightarrow> jv \<Rightarrow> string"
  and show_elements :: "string \<Rightarrow> string \<Rightarrow> jv list \<Rightarrow> string list"
  and show_members :: "string \<Rightarrow> string \<Rightarrow> (string \<times> jv) list \<Rightarrow> string list"
where
  "show_json gap ind JUndef = ''undefined''"
| "show_json gap ind JNull = ''null''"
| "show_json gap ind (JBool b) = (if b then ''true'' else ''false'')"
| "show_json gap ind (JNum r) = show_number r"
| "show_json gap ind (JStr s) = quote s"
| "show_json gap ind (JArr xs ps) =
     (let items = show_elements gap (ind @ gap) xs
      in if items = [] then ''[]''
         else if gap = [] then ''['' @ join_strings '','' items @ '']''
         else ''['' @ [CHR 0x0A] @ ind @ gap @
              join_strings ('','' @ [CHR 0x0A] @ ind @ gap) items @ [CHR 0x0A] @ ind @ '']'')"
| "show_json gap ind (JObj kvs) =
     (let items = show_members gap (ind @ gap) kvs
      in if items = [] then ''{}''
         else if gap = [] then ''{'' @ join_strings '','' items @ ''}''
         else ''{'' @ [CHR 0x0A] @ ind @ gap @
              join_strings ('','' @ [CHR 0x0A] @ ind @ gap) items @ [CHR 0x0A] @ ind @ ''}'')"
| "show_elements gap ind [] = []"
| "show_elements gap ind (x # xs) =
     (if x = JUndef then ''null'' else show_json gap ind x) # show_elements gap ind xs"
| "show_members gap ind [] = []"
| "show_members gap ind ((k, v) # kvs) =
     (if v = JUndef then show_members gap ind kvs
      else (quote k @ (if gap = [] then '':'' else '': '') @ show_json gap ind v) #
           show_members gap ind kvs)"

definition runtime :: platform where
  "runtime =
     \<lparr> json_parse = parse_json,
       json_stringify = (\<lambda>v n. show_json (replicate (min n 10) CHR '' '') [] v),
       number_to_string = show_number,
       string_to_number = read_number \<rparr>"

section \<open>Vocabulary of the statements\<close>

text \<open>The value of a property of a value that is neither \<^verbatim>\<open>null\<close> nor \<^verbatim>\<open>undefined\<close>.\<close>

definition field :: "jv \<Rightarrow> string \<Rightarrow> jv" where
  "field v k = (case get_prop v k of Inr x \<Rightarrow> x | Inl e \<Rightarrow> JUndef)"

definition present :: "jv \<Rightarrow> bool" where
  "present v \<longleftrightarrow> v \<noteq> JNull \<and> v \<noteq> JUndef"

text \<open>
  A question qualifies when its criticality equals \<^verbatim>\<open>high\<close> or its \<^verbatim>\<open>default_used\<close>
  is falsy; it is reduced to its question, why it matters and the default used.
\<close>

definition qualifies :: "jv \<Rightarrow> bool" where
  "qualifies q \<longleftrightarrow> field q ''criticality'' = JStr ''high'' \<or> \<not> truthy (field q ''default_used'')"

definition reduced :: "jv \<Rightarrow> jv" where
  "reduced q =
     JObj [(''question'', field q ''question''), (''context'', field q ''why_it_matters''),
           (''currentAssumption'', field q ''default_used'')]"

text \<open>
  The shot-number invariant of the data model: the numbers of the shots are 1, 2, 3, ...
  in the order of the sequence.
\<close>

definition shot_numbers_contiguous :: "jv \<Rightarrow> bool" where
  "shot_numbers_contiguous a =
     (case get_prop a ''shots'' of
        Inr (JArr ss ps) \<Rightarrow>
          map (\<lambda>s. get_prop s ''shot_number'') ss = map (\<lambda>i. Inr (JNum (of_nat (i + 1)))) [0..<length ss]
      | _ \<Rightarrow> False)"

text \<open>
  The creative input of the specification: a text; or a mapping tagged \<^verbatim>\<open>text\<close> with a
  content, tagged \<^verbatim>\<open>deck\<close> with a file name and a parsed content, or tagged
  \<^verbatim>\<open>structured\<close> with optional concept, tone (a text or a list of texts), narrative,
  characters (a name and a description each), shots (texts), style and constraints; a
  mapping may carry a list of references, each with a description and an optional URL.
  An optional field is unset when it is \<^verbatim>\<open>undefined\<close> (absent) or \<^verbatim>\<open>null\<close>.
\<close>

definition unset :: "jv \<Rightarrow> bool" where
  "unset v \<longleftrightarrow> v = JUndef \<or> v = JNull"

definition optional_text :: "jv \<Rightarrow> bool" where
  "optional_text v \<longleftrightarrow> unset v \<or> is_string v"

fun entries :: "jv \<Rightarrow> jv list" where
  "entries (JArr xs ps) = xs"
| "entries v = []"

definition list_of :: "(jv \<Rightarrow> bool) \<Rightarrow> jv \<Rightarrow> bool" where
  "list_of good v \<longleftrightarrow> is_array v \<and> list_all good (entries v)"

definition reference_ok :: "jv \<Rightarrow> bool" where
  "reference_ok r \<longleftrightarrow>
     present r \<and> is_string (field r ''description'') \<and> optional_text (field r ''url'')"

definition character_ok :: "jv \<Rightarrow> bool" where
  "character_ok c \<longleftrightarrow>
     present c \<and> is_string (field c ''name'') \<and> is_string (field c ''description'')"

definition structured_fields :: "jv \<Rightarrow> bool" where
  "structured_fields input \<longleftrightarrow>
     optional_text (field input ''concept'') \<and>
     (optional_text (field input ''tone'') \<or> list_of is_string (field input ''tone'')) \<and>
     optional_text (field input ''narrative'') \<and>
     (unset (field input ''characters'') \<or> list_of character_ok (field input ''characters'')) \<and>
     (unset (field input ''shots'') \<or> list_of is_string (field input ''shots'')) \<and>
     optional_text (field input ''style'') \<and>
     optional_text (field input ''constraints'')"

definition creative_input :: "jv \<Rightarrow> bool" where
  "creative_input input \<longleftrightarrow>
     is_string input \<or>
     present input \<and>
     (unset (field input ''references'') \<or> list_of reference_ok (field input ''references'')) \<and>
     (field input ''type'' = JStr ''text'' \<and> is_string (field input ''content'') \<or>
      field input ''type'' = JStr ''deck'' \<and> is_string (field input ''filename'') \<and>
        is_string (field input ''parsedContent'') \<or>
      field input ''type'' = JStr ''structured'' \<and> structured_fields input)"

text \<open>
  The options: a platform that is a text or absent, a shot count that is a number or
  unset, a brand context that is a text or unset.
\<close>

definition generation_options :: "jv \<Rightarrow> jv \<Rightarrow> jv \<Rightarrow> bool" where
  "generation_options p sc bc \<longleftrightarrow>
     (p = JUndef \<or> is_string p) \<and> (unset sc \<or> is_number sc) \<and> optional_text bc"

text \<open>The texts that a value supplies: its strings, and its numbers as they are shown.\<close>

fun leaves :: "platform \<Rightarrow> jv \<Rightarrow> string list"
  and leaves_list :: "platform \<Rightarrow> jv list \<Rightarrow> string list"
  and leaves_props :: "platform \<Rightarrow> (string \<times> jv) list \<Rightarrow> string list"
where
  "leaves P JUndef = []"
| "leaves P JNull = []"
| "leaves P (JBool b) = []"
| "leaves P (JNum r) = [number_to_string P r]"
| "leaves P (JStr s) = [s]"
| "leaves P (JArr xs ps) = leaves_list P xs @ leaves_props P ps"
| "leaves P (JObj kvs) = leaves_props P kvs"
| "leaves_list P [] = []"
| "leaves_list P (x # xs) = leaves P x @ leaves_list P xs"
| "leaves_props P [] = []"
| "leaves_props P ((k, v) # kvs) = leaves P v @ leaves_props P kvs"

text \<open>The placeholder tokens, and a value none of whose texts contains the token.\<close>

definition placeholder :: "string \<Rightarrow> bool" where
  "placeholder tok \<longleftrightarrow> tok \<in> set [''undefined'', ''null'']"

definition free_of :: "platform \<Rightarrow> string \<Rightarrow> jv \<Rightarrow> bool" where
  "free_of P tok v \<longleftrightarrow> (\<forall>s\<in>set (leaves P v). \<not> sublist tok s)"

fun text_of :: "jv \<Rightarrow> string" where
  "text_of (JStr s) = s"
| "text_of v = []"

section \<open>Sample data\<close>

definition shot_with :: "rat \<Rightarrow> string \<Rightarrow> jv" where
  "shot_with n txt =
     JObj [(''shot_number'', JNum n), (''prompt'', JObj [(''full_prompt'', JStr txt)])]"

definition architecture_with :: "jv \<Rightarrow> jv list \<Rightarrow> jv" where
  "architecture_with md shots =
     JObj [(''metadata'', md), (''project'', JObj [(''title'', JStr ''Spot'')]),
           (''global_style'', JObj [(''mood'', JStr ''warm'')]), (''shots'', JArr shots [])]"

text \<open>A backend that answers every request with the completion \<open>text\<close>.\<close>

definition backend :: "string \<Rightarrow> environment" where
  "backend text =
     \<lparr> window_defined = True,
       fetch = (\<lambda>body. Inr \<lparr> ok = True, status = 200,
                               json = Inr (JObj [(''content'', JStr text), (''model'', JStr ''m'')]) \<rparr>),
       now = ''2025-01-01T00:00:00.000Z'' \<rparr>"

definition question_with :: "string \<Rightarrow> string \<Rightarrow> jv \<Rightarrow> jv" where
  "question_with q c d =
     JObj [(''question'', JStr q), (''why_it_matters'', JStr ''it changes the casting''),
           (''criticality'', JStr c), (''default_used'', d)]"

text \<open>The example of the specification: confidence 0.4, Q1 high without a default, Q2 low with one.\<close>

definition two_questions :: jv where
  "two_questions =
     JObj [(''metadata'', JObj [(''confidence_score'', JNum (2 / 5))]),
           (''missing_info'', JArr [question_with ''Q1'' ''high'' (JBool False),
                                    question_with ''Q2'' ''low'' (JBool True)] []),
           (''interpretations'', JArr [] [])]"

text \<open>A completion whose \<^verbatim>\<open>missing_info\<close> is a sentence instead of a sequence.\<close>

definition completion_with_text_for_questions :: string where
  \<open>completion_with_text_for_questions =
     ''{"metadata":{"confidence_score":0.4},"project":{"title":"Spot"},"global_style":{"mood":"warm"},"shots":[{"shot_number":1,"prompt":{"full_prompt":"a dog runs"}}],"missing_info":"none"}''\<close>

text \<open>
  An architecture as the validator returns it: the confidence \<open>c\<close>, one shot, the
  questions \<open>mi\<close> and one interpretation of confidence 0.6.
\<close>

definition validated_with :: "rat \<Rightarrow> jv \<Rightarrow> jv" where
  "validated_with c mi =
     JObj [(''metadata'', JObj [(''confidence_score'', JNum c)]),
           (''project'', JObj [(''title'', JStr ''Spot'')]),
           (''global_style'', JObj [(''mood'', JStr ''warm'')]),
           (''shots'', JArr [shot_with 1 ''a dog runs''] []),
           (''missing_info'', mi),
           (''interpretations'',
            JArr [JObj [(''element'', JStr ''mood''), (''interpretation'', JStr ''warm light''),
                        (''alternatives'', JArr [JStr ''cool light''] []),
                        (''confidence'', JNum (3 / 5))]] []),
           (''characters'', JArr [] []),
           (''environments'', JArr [] [])]"

text \<open>A completion that sets a schema version, a platform and a model of its own.\<close>

definition completion_with_metadata :: string where
  \<open>completion_with_metadata =
     ''{"metadata":{"schema_version":"0.1","confidence_score":0.9,"platform_target":"sora","model":"m1"},"project":{"title":"Spot"},"global_style":{"mood":"warm"},"shots":[{"shot_number":1,"prompt":{"full_prompt":"a dog runs"}}]}''\<close>

definition long_feedback :: string where
  "long_feedback =
     ''Make the opening slower and let the dog enter from the left, then hold on the park bench for a beat longer.''"

text \<open>A completion fenced with another tag than \<^verbatim>\<open>json\<close>.\<close>

definition completion_fenced_js :: string where
  \<open>completion_fenced_js = ''```js\<newline>{"metadata":{"confidence_score":0.9}}\<newline>```''\<close>

text \<open>
  A completion without any backquote, whose prompt spells three backquotes by the
  escape sequence of JSON for the code unit 0060.
\<close>

definition completion_with_escaped_ticks :: string where
  \<open>completion_with_escaped_ticks =
     ''{"metadata":{"confidence_score":0.9},"project":{"title":"Spot"},"global_style":{"mood":"warm"},"shots":[{"prompt":{"full_prompt":"a terminal showing '' @
     [CHR 0x5C] @ ''u0060'' @ [CHR 0x5C] @ ''u0060'' @ [CHR 0x5C] @ ''u0060'' @
     '' on its screen"}}],"interpretations":[],"missing_info":[],"characters":[],"environments":[]}''\<close>

definition architecture_with_prompt :: "string \<Rightarrow> jv" where
  "architecture_with_prompt txt =
     JObj [(''metadata'', JObj [(''confidence_score'', JNum (9 / 10))]),
           (''project'', JObj [(''title'', JStr ''Spot'')]),
           (''global_style'', JObj [(''mood'', JStr ''warm'')]),
           (''shots'', JArr [JObj [(''prompt'', JObj [(''full_prompt'', JStr txt)])]] []),
           (''interpretations'', JArr [] []), (''missing_info'', JArr [] []),
           (''characters'', JArr [] []), (''environments'', JArr [] [])]"

text \<open>A structured input without narrative, style and constraints; its second reference has no URL.\<close>

definition structured_brief :: jv where
  "structured_brief =
     JObj [(''type'', JStr ''structured''),
           (''concept'', JStr ''A dog finds its way home''),
           (''tone'', JArr [JStr ''warm'', JStr ''nostalgic''] []),
           (''characters'',
            JArr [JObj [(''name'', JStr ''Rex''), (''description'', JStr ''a golden retriever'')]] []),
           (''shots'', JArr [JStr ''park at dawn'', JStr ''front door''] []),
           (''references'',
            JArr [JObj [(''description'', JStr ''golden hour still''),
                        (''url'', JStr ''https://example.com/a.jpg'')],
                  JObj [(''description'', JStr ''mood board'')]] [])]"

section \<open>Sequencing\<close>

lemma bind_Inr [simp]: "bind (Inr x) f = f x"
  by (simp add: bind_def)

lemma bind_Inl [simp]: "bind (Inl e) f = Inl e"
  by (simp add: bind_def)

lemma bind_eq_Inr: "bind m f = Inr y \<longleftrightarrow> (\<exists>x. m = Inr x \<and> f x = Inr y)"
  by (cases m) auto

section \<open>Properties of objects\<close>

lemma lookup_assign: "lookup (assign kvs k v) k' = (if k' = k then v else lookup kvs k')"
  by (induction kvs) (auto simp: lookup_def)

lemma digits_nat_to_string: "set (nat_to_string n) \<subseteq> set ''0123456789''"
proof (induction n rule: nat_to_string.induct)
  case (1 n)
  have d: "digit_char d \<in> set ''0123456789''" if "d < 10" for d
    using that unfolding digit_char_def by (intro nth_mem) simp
  show ?case
  proof (cases "n < 10")
    case True
    with d [of n] show ?thesis by (subst nat_to_string.simps) simp
  next
    case False
    have "n mod 10 < 10" by simp
    from d [OF this] 1 False show ?thesis by (subst nat_to_string.simps) auto
  qed
qed

lemma nat_to_string_nonempty: "nat_to_string n \<noteq> []"
  by (subst nat_to_string.simps) simp

lemma index_of_key_None:
  assumes "k = [] \<or> hd k \<notin> set ''0123456789''"
  shows "index_of_key k n = None"
proof -
  have "nat_to_string i \<noteq> k" for i
  proof
    assume e: "nat_to_string i = k"
    with nat_to_string_nonempty [of i] have "k \<noteq> []" by auto
    with e have "hd k \<in> set (nat_to_string i)" by auto
    with digits_nat_to_string [of i] assms \<open>k \<noteq> []\<close> show False by blast
  qed
  then show ?thesis by (simp add: index_of_key_def find_None_iff)
qed

lemma get_set_prop_same:
  "set_prop a k v = Inr a' \<Longrightarrow> named k \<Longrightarrow> get_prop a' k = Inr v"
  by (cases a) (auto simp: lookup_assign index_of_key_None named_def)

lemma get_set_prop_other:
  "set_prop a k v = Inr a' \<Longrightarrow> k' \<noteq> k \<Longrightarrow> get_prop a' k' = get_prop a k'"
  by (cases a) (auto simp: lookup_assign split: option.splits)

lemma set_prop_object: "is_object a \<Longrightarrow> \<exists>a'. set_prop a k v = Inr a' \<and> is_object a'"
  by (cases a) auto

lemma truthy_prop_object: "get_prop a k = Inr v \<Longrightarrow> truthy v \<Longrightarrow> k \<noteq> ''length'' \<Longrightarrow> named k \<Longrightarrow> is_object a"
  by (cases a) (auto simp: index_of_key_None named_def split: if_splits)

section \<open>Properties of the validator\<close>

lemma missing_fields_filter:
  "(\<And>f. f \<in> set fs \<Longrightarrow> get_prop arch f = Inr (g f)) \<Longrightarrow>
   missing_fields arch fs = Inr (filter (\<lambda>f. \<not> truthy (g f)) fs)"
  by (induction fs) auto

lemma missing_fields_Nil:
  "missing_fields arch fs = Inr [] \<longleftrightarrow> (\<forall>f\<in>set fs. \<exists>v. get_prop arch f = Inr v \<and> truthy v)"
  by (induction fs) (auto simp: bind_eq_Inr split: if_splits)

lemma sublist_join_strings: "f \<in> set fs \<Longrightarrow> sublist f (join_strings sep fs)"
proof (induction sep fs rule: join_strings.induct)
  case (1 sep)
  then show ?case by simp
next
  case (2 sep x)
  then show ?case by simp
next
  case (3 sep x y ys)
  show ?case
  proof (cases "f = x")
    case True
    then show ?thesis by simp
  next
    case False
    with 3 have "sublist f (join_strings sep (y # ys))" by simp
    then obtain ps ss where "join_strings sep (y # ys) = ps @ f @ ss"
      by (auto simp: sublist_def)
    then have "join_strings sep (x # y # ys) = (x @ sep @ ps) @ f @ ss" by simp
    then show ?thesis unfolding sublist_def by blast
  qed
qed

lemma check_shots_first_bad:
  "i < length ss \<Longrightarrow> (\<forall>j<i. shot_ok (ss ! j) = Inr True) \<Longrightarrow> shot_ok (ss ! i) = Inr False \<Longrightarrow>
   check_shots n ss = Inl (Error (''Shot '' @ nat_to_string (n + i + 1) @ '' missing full_prompt''))"
proof (induction ss arbitrary: n i)
  case Nil
  then show ?case by simp
next
  case (Cons s ss)
  show ?case
  proof (cases i)
    case 0
    with Cons.prems show ?thesis by simp
  next
    case (Suc k)
    with Cons.prems have k: "k < length ss" "\<forall>j<k. shot_ok (ss ! j) = Inr True" "shot_ok (ss ! k) = Inr False"
      and hd: "shot_ok s = Inr True"
      by auto
    from Cons.IH [OF k, of "n + 1"] hd Suc show ?thesis by simp
  qed
qed

lemma check_shots_ok: "check_shots n ss = Inr u \<longleftrightarrow> (\<forall>s\<in>set ss. shot_ok s = Inr True)"
  by (induction ss arbitrary: n) (auto simp: bind_eq_Inr)

lemma named_keys [simp]:
  "named ''metadata''" "named ''confidence_score''" "named ''interpretations''"
  "named ''missing_info''" "named ''characters''" "named ''environments''" "named ''shots''"
  by (simp_all add: named_def)

lemma shot_ok_True:
  "shot_ok s = Inr True \<longleftrightarrow>
   (\<exists>p fp. get_prop s ''prompt'' = Inr p \<and> truthy p \<and> get_prop p ''full_prompt'' = Inr fp \<and> truthy fp)"
  by (auto simp: shot_ok_def bind_eq_Inr split: if_splits)

lemma validateArchitecture_Inr:
  "validateArchitecture arch = Inr a \<longleftrightarrow>
   missing_fields arch required = Inr [] \<and>
   (\<exists>shots a1 a2 a3 a4. get_prop arch ''shots'' = Inr shots \<and> for_each_shot shots = Inr () \<and>
      default_confidence arch = Inr a1 \<and> default_array ''interpretations'' a1 = Inr a2 \<and>
      default_array ''missing_info'' a2 = Inr a3 \<and> default_array ''characters'' a3 = Inr a4 \<and>
      default_array ''environments'' a4 = Inr a)"
  by (auto simp: validateArchitecture_def bind_eq_Inr split: if_splits)

lemma default_array_get:
  assumes "default_array k a = Inr a'"
  shows "get_prop a' k' = (if k' = k \<and> named k then bind (get_prop a k) (\<lambda>v. Inr (or_empty v)) else if k' = k then get_prop a' k' else get_prop a k')"
  using assms
  by (auto simp: default_array_def bind_eq_Inr get_set_prop_same get_set_prop_other)

lemma default_array_object:
  "is_object a \<Longrightarrow> \<exists>a'. default_array k a = Inr a' \<and> is_object a'"
  by (cases a) (auto simp: default_array_def)

lemma default_confidence_shots:
  "default_confidence a = Inr a' \<Longrightarrow> k \<noteq> ''metadata'' \<Longrightarrow> get_prop a' k = get_prop a k"
  by (auto simp: default_confidence_def bind_eq_Inr get_set_prop_other split: if_splits)

text \<open>
  Claim C7, as amended. The validator never reads \<^verbatim>\<open>shot_number\<close>: an architecture it
  accepts has the shots sequence it received, unchanged, and what holds of every shot in
  it is that \<^verbatim>\<open>prompt.full_prompt\<close> is present and not empty. The numbers
  themselves need not be 1, 2, 3, ...
\<close>

theorem validator_keeps_shots:
  assumes "validateArchitecture arch = Inr a"
  shows "get_prop a ''shots'' = get_prop arch ''shots'' \<and>
         (\<exists>ss ps. get_prop a ''shots'' = Inr (JArr ss ps) \<and>
            (\<forall>s\<in>set ss. \<exists>p fp. get_prop s ''prompt'' = Inr p \<and> truthy p \<and>
                                 get_prop p ''full_prompt'' = Inr fp \<and> truthy fp))"
proof -
  from assms obtain shots a1 a2 a3 a4 where
    sh: "get_prop arch ''shots'' = Inr shots" and fe: "for_each_shot shots = Inr ()"
    and 1: "default_confidence arch = Inr a1" and 2: "default_array ''interpretations'' a1 = Inr a2"
    and 3: "default_array ''missing_info'' a2 = Inr a3" and 4: "default_array ''characters'' a3 = Inr a4"
    and 5: "default_array ''environments'' a4 = Inr a"
    by (auto simp: validateArchitecture_Inr)
  have "get_prop a ''shots'' = get_prop arch ''shots''"
    using default_array_get [OF 5, of "''shots''"] default_array_get [OF 4, of "''shots''"]
      default_array_get [OF 3, of "''shots''"] default_array_get [OF 2, of "''shots''"]
      default_confidence_shots [OF 1, of "''shots''"]
    by simp
  moreover from fe obtain ss ps where "shots = JArr ss ps" "check_shots 0 ss = Inr ()"
    by (auto simp: for_each_shot_def split: jv.splits)
  moreover then have "\<forall>s\<in>set ss. shot_ok s = Inr True" by (simp add: check_shots_ok)
  ultimately show ?thesis using sh by (auto simp: shot_ok_True)
qed


lemma default_confidence_result:
  assumes "is_object arch" "get_prop arch ''metadata'' = Inr md" "is_object md"
    "get_prop md ''confidence_score'' = Inr cs"
  shows "\<exists>a1 md'. default_confidence arch = Inr a1 \<and> is_object a1 \<and>
           get_prop a1 ''metadata'' = Inr md' \<and>
           get_prop md' ''confidence_score'' = Inr (if is_number cs then cs else JNum (4 / 5)) \<and>
           (\<forall>k. k \<noteq> ''confidence_score'' \<longrightarrow> get_prop md' k = get_prop md k) \<and>
           (\<forall>k. k \<noteq> ''metadata'' \<longrightarrow> get_prop a1 k = get_prop arch k)"
proof (cases "is_number cs")
  case True
  with assms show ?thesis by (simp add: default_confidence_def)
next
  case False
  from set_prop_object [OF assms(3)] obtain md' where
    md': "set_prop md ''confidence_score'' (JNum (4 / 5)) = Inr md'" "is_object md'" by blast
  from set_prop_object [OF assms(1)] obtain a1 where
    a1: "set_prop arch ''metadata'' md' = Inr a1" "is_object a1" by blast
  have "default_confidence arch = Inr a1"
    using assms False md' a1 by (simp add: default_confidence_def)
  moreover have "get_prop a1 ''metadata'' = Inr md'"
    using a1 by (simp add: get_set_prop_same)
  moreover have "get_prop md' ''confidence_score'' = Inr (JNum (4 / 5))"
    using md' by (simp add: get_set_prop_same)
  moreover have "\<forall>k. k \<noteq> ''confidence_score'' \<longrightarrow> get_prop md' k = get_prop md k"
    using md' by (simp add: get_set_prop_other)
  moreover have "\<forall>k. k \<noteq> ''metadata'' \<longrightarrow> get_prop a1 k = get_prop arch k"
    using a1 by (simp add: get_set_prop_other)
  ultimately show ?thesis using False a1 by simp
qed

lemma get_prop_object: "is_object a \<Longrightarrow> \<exists>v. get_prop a k = Inr v"
  by (cases a) auto

lemma default_array_result:
  assumes "is_object a" "named k"
  shows "\<exists>a' v. default_array k a = Inr a' \<and> is_object a' \<and> get_prop a k = Inr v \<and>
           get_prop a' k = Inr (or_empty v) \<and> (\<forall>k'. k' \<noteq> k \<longrightarrow> get_prop a' k' = get_prop a k')"
proof -
  from get_prop_object [OF assms(1)] obtain v where v: "get_prop a k = Inr v" by blast
  from set_prop_object [OF assms(1)] obtain a' where
    a': "set_prop a k (or_empty v) = Inr a'" "is_object a'" by blast
  have "default_array k a = Inr a'" using v a' by (simp add: default_array_def)
  moreover have "get_prop a' k = Inr (or_empty v)"
    using a' assms(2) by (simp add: get_set_prop_same)
  moreover have "\<forall>k'. k' \<noteq> k \<longrightarrow> get_prop a' k' = get_prop a k'"
    using a' by (simp add: get_set_prop_other)
  ultimately show ?thesis using a' v by blast
qed

lemma validateArchitecture_result:
  assumes req: "missing_fields arch required = Inr []"
    and sh: "get_prop arch ''shots'' = Inr shots" "for_each_shot shots = Inr ()"
    and md: "get_prop arch ''metadata'' = Inr md" "is_object md"
    and cs: "get_prop md ''confidence_score'' = Inr cs"
  shows "(\<exists>a md'. validateArchitecture arch = Inr a \<and> get_prop a ''metadata'' = Inr md' \<and>
            get_prop md' ''confidence_score'' = Inr (if is_number cs then cs else JNum (4 / 5)) \<and>
            (\<forall>k. k \<noteq> ''confidence_score'' \<longrightarrow> get_prop md' k = get_prop md k) \<and>
            (\<forall>k\<in>set [''interpretations'', ''missing_info'', ''characters'', ''environments''].
               \<exists>v. get_prop arch k = Inr v \<and> get_prop a k = Inr (if truthy v then v else JArr [] [])) \<and>
            (\<forall>k. k \<notin> set [''metadata'', ''interpretations'', ''missing_info'', ''characters'', ''environments'']
               \<longrightarrow> get_prop a k = get_prop arch k)) \<and>
         (\<forall>x b. validateArchitecture x = Inr b \<longrightarrow>
            missing_fields x required = Inr [] \<and>
            (\<exists>s. get_prop x ''shots'' = Inr s \<and> for_each_shot s = Inr ()))"
proof -
  from req [unfolded missing_fields_Nil] have "\<exists>v. get_prop arch ''metadata'' = Inr v \<and> truthy v"
    by (simp add: required_def)
  then have obj: "is_object arch"
    by (auto intro: truthy_prop_object [where k = "''metadata''"])
  from default_confidence_result [OF obj md cs] obtain a1 md' where
    1: "default_confidence arch = Inr a1" "is_object a1" "get_prop a1 ''metadata'' = Inr md'"
       "get_prop md' ''confidence_score'' = Inr (if is_number cs then cs else JNum (4 / 5))"
       "\<forall>k. k \<noteq> ''confidence_score'' \<longrightarrow> get_prop md' k = get_prop md k"
       "\<forall>k. k \<noteq> ''metadata'' \<longrightarrow> get_prop a1 k = get_prop arch k"
    by blast
  from default_array_result [OF 1(2), of "''interpretations''"] obtain a2 v2 where
    2: "default_array ''interpretations'' a1 = Inr a2" "is_object a2"
       "get_prop a1 ''interpretations'' = Inr v2" "get_prop a2 ''interpretations'' = Inr (or_empty v2)"
       "\<forall>k'. k' \<noteq> ''interpretations'' \<longrightarrow> get_prop a2 k' = get_prop a1 k'"
    by auto
  from default_array_result [OF 2(2), of "''missing_info''"] obtain a3 v3 where
    3: "default_array ''missing_info'' a2 = Inr a3" "is_object a3"
       "get_prop a2 ''missing_info'' = Inr v3" "get_prop a3 ''missing_info'' = Inr (or_empty v3)"
       "\<forall>k'. k' \<noteq> ''missing_info'' \<longrightarrow> get_prop a3 k' = get_prop a2 k'"
    by auto
  from default_array_result [OF 3(2), of "''characters''"] obtain a4 v4 where
    4: "default_array ''characters'' a3 = Inr a4" "is_object a4"
       "get_prop a3 ''characters'' = Inr v4" "get_prop a4 ''characters'' = Inr (or_empty v4)"
       "\<forall>k'. k' \<noteq> ''characters'' \<longrightarrow> get_prop a4 k' = get_prop a3 k'"
    by auto
  from default_array_result [OF 4(2), of "''environments''"] obtain a v5 where
    5: "default_array ''environments'' a4 = Inr a" "is_object a"
       "get_prop a4 ''environments'' = Inr v5" "get_prop a ''environments'' = Inr (or_empty v5)"
       "\<forall>k'. k' \<noteq> ''environments'' \<longrightarrow> get_prop a k' = get_prop a4 k'"
    by auto
  have val: "validateArchitecture arch = Inr a"
    using req sh 1(1) 2(1) 3(1) 4(1) 5(1) by (simp add: validateArchitecture_Inr)
  have meta: "get_prop a ''metadata'' = Inr md'"
    using 1(3) 2(5) 3(5) 4(5) 5(5) by simp
  have i: "get_prop arch ''interpretations'' = Inr v2 \<and> get_prop a ''interpretations'' = Inr (or_empty v2)"
    using 1(6) 2(3,4) 3(5) 4(5) 5(5) by simp
  have m: "get_prop arch ''missing_info'' = Inr v3 \<and> get_prop a ''missing_info'' = Inr (or_empty v3)"
    using 1(6) 2(5) 3(3,4) 4(5) 5(5) by simp
  have c: "get_prop arch ''characters'' = Inr v4 \<and> get_prop a ''characters'' = Inr (or_empty v4)"
    using 1(6) 2(5) 3(5) 4(3,4) 5(5) by simp
  have e: "get_prop arch ''environments'' = Inr v5 \<and> get_prop a ''environments'' = Inr (or_empty v5)"
    using 1(6) 2(5) 3(5) 4(5) 5(3,4) by simp
  have other: "\<forall>k. k \<notin> set [''metadata'', ''interpretations'', ''missing_info'', ''characters'', ''environments'']
               \<longrightarrow> get_prop a k = get_prop arch k"
    using 1(6) 2(5) 3(5) 4(5) 5(5) by simp
  have never: "\<forall>x b. validateArchitecture x = Inr b \<longrightarrow>
            missing_fields x required = Inr [] \<and>
            (\<exists>s. get_prop x ''shots'' = Inr s \<and> for_each_shot s = Inr ())"
    by (auto simp: validateArchitecture_Inr)
  from val meta 1(4,5) i m c e other never show ?thesis
    unfolding or_empty_def by auto
qed

text \<open>
  Claim C4, as amended. An input that passes the required-field check and the per-shot
  check, and whose \<^verbatim>\<open>metadata\<close> is an object rather than a scalar, is accepted;
  \<^verbatim>\<open>metadata.confidence_score\<close> is kept when it is a number and is 0.8 otherwise, no
  other property of the metadata changes; each of \<^verbatim>\<open>interpretations\<close>,
  \<^verbatim>\<open>missing_info\<close>, \<^verbatim>\<open>characters\<close>, \<^verbatim>\<open>environments\<close> is kept when truthy and is the
  empty sequence otherwise (so when absent); every other property is as it was. And
  whatever the validator accepts has passed both checks: defaulting masks no violation.
  With a truthy scalar as \<^verbatim>\<open>metadata\<close> the checks pass and the defaulting throws.
\<close>

theorem validator_defaults:
  assumes req: "missing_fields arch required = Inr []"
    and sh: "get_prop arch ''shots'' = Inr shots" "for_each_shot shots = Inr ()"
    and md: "get_prop arch ''metadata'' = Inr md" "is_object md"
    and cs: "get_prop md ''confidence_score'' = Inr cs"
  shows "(\<exists>a md'. validateArchitecture arch = Inr a \<and> get_prop a ''metadata'' = Inr md' \<and>
            get_prop md' ''confidence_score'' = Inr (if is_number cs then cs else JNum (4 / 5)) \<and>
            (\<forall>k. k \<noteq> ''confidence_score'' \<longrightarrow> get_prop md' k = get_prop md k) \<and>
            (\<forall>k\<in>set [''interpretations'', ''missing_info'', ''characters'', ''environments''].
               \<exists>v. get_prop arch k = Inr v \<and> get_prop a k = Inr (if truthy v then v else JArr [] [])) \<and>
            (\<forall>k. k \<notin> set [''metadata'', ''interpretations'', ''missing_info'', ''characters'', ''environments'']
               \<longrightarrow> get_prop a k = get_prop arch k)) \<and>
         (\<forall>x b. validateArchitecture x = Inr b \<longrightarrow>
            missing_fields x required = Inr [] \<and>
            (\<exists>s. get_prop x ''shots'' = Inr s \<and> for_each_shot s = Inr ()))"
  using validateArchitecture_result [OF assms] .



lemmas eval_validator =
  validateArchitecture_def required_def for_each_shot_def shot_ok_def lookup_def
  default_confidence_def default_array_def or_empty_def nat_to_string.simps digit_char_def
  shot_with_def architecture_with_def




text \<open>
  A text as \<^verbatim>\<open>metadata\<close>: both checks pass, and the assignment of the default
  confidence to a property of a string throws.
\<close>

theorem validator_scalar_metadata_throws:
  "missing_fields (architecture_with (JStr ''v1'') [shot_with 1 ''a dog runs'']) required = Inr [] \<and>
   for_each_shot (JArr [shot_with 1 ''a dog runs''] []) = Inr () \<and>
   validateArchitecture (architecture_with (JStr ''v1'') [shot_with 1 ''a dog runs'']) = Inl TypeError"
  by (simp add: eval_validator index_of_key_def)

text \<open>Two shots that both carry the number 7 are accepted.\<close>

theorem validator_accepts_any_shot_number:
  "validateArchitecture (architecture_with (JObj [(''confidence_score'', JNum (9 / 10))])
       [shot_with 7 ''a dog runs'', shot_with 7 ''the dog rests'']) =
     Inr (JObj [(''metadata'', JObj [(''confidence_score'', JNum (9 / 10))]),
                (''project'', JObj [(''title'', JStr ''Spot'')]),
                (''global_style'', JObj [(''mood'', JStr ''warm'')]),
                (''shots'', JArr [shot_with 7 ''a dog runs'', shot_with 7 ''the dog rests''] []),
                (''interpretations'', JArr [] []), (''missing_info'', JArr [] []),
                (''characters'', JArr [] []), (''environments'', JArr [] [])]) \<and>
   \<not> shot_numbers_contiguous
       (JObj [(''metadata'', JObj [(''confidence_score'', JNum (9 / 10))]),
                (''project'', JObj [(''title'', JStr ''Spot'')]),
                (''global_style'', JObj [(''mood'', JStr ''warm'')]),
                (''shots'', JArr [shot_with 7 ''a dog runs'', shot_with 7 ''the dog rests''] []),
                (''interpretations'', JArr [] []), (''missing_info'', JArr [] []),
                (''characters'', JArr [] []), (''environments'', JArr [] [])])"
  by (simp add: eval_validator shot_numbers_contiguous_def)

theorem validator_defaults_witness:
  "missing_fields (architecture_with (JObj [(''schema_version'', JStr ''0.9'')]) [shot_with 1 ''a dog runs''])
     required = Inr [] \<and>
   for_each_shot (JArr [shot_with 1 ''a dog runs''] []) = Inr () \<and>
   is_object (JObj [(''schema_version'', JStr ''0.9'')]) \<and>
   (\<exists>a md'. validateArchitecture
        (architecture_with (JObj [(''schema_version'', JStr ''0.9'')]) [shot_with 1 ''a dog runs'']) = Inr a \<and>
      get_prop a ''metadata'' = Inr md' \<and>
      get_prop md' ''confidence_score'' = Inr (JNum (4 / 5)) \<and>
      get_prop md' ''schema_version'' = Inr (JStr ''0.9'') \<and>
      get_prop a ''interpretations'' = Inr (JArr [] []) \<and>
      get_prop a ''missing_info'' = Inr (JArr [] []) \<and>
      get_prop a ''characters'' = Inr (JArr [] []) \<and>
      get_prop a ''environments'' = Inr (JArr [] []) \<and>
      get_prop a ''project'' = Inr (JObj [(''title'', JStr ''Spot'')]))"
proof -
  let ?md = "JObj [(''schema_version'', JStr ''0.9'')]"
  let ?x = "architecture_with ?md [shot_with 1 ''a dog runs'']"
  have 1: "missing_fields ?x required = Inr []"
    by (simp add: architecture_with_def required_def lookup_def)
  have 2: "get_prop ?x ''shots'' = Inr (JArr [shot_with 1 ''a dog runs''] [])"
    by (simp add: architecture_with_def lookup_def)
  have 3: "for_each_shot (JArr [shot_with 1 ''a dog runs''] []) = Inr ()"
    by (simp add: for_each_shot_def shot_ok_def shot_with_def lookup_def)
  have 4: "get_prop ?x ''metadata'' = Inr ?md"
    by (simp add: architecture_with_def lookup_def)
  have 5: "is_object ?md" by simp
  have 6: "get_prop ?md ''confidence_score'' = Inr JUndef"
    by (simp add: lookup_def)
  have 7: "get_prop ?x ''interpretations'' = Inr JUndef" "get_prop ?x ''missing_info'' = Inr JUndef"
    "get_prop ?x ''characters'' = Inr JUndef" "get_prop ?x ''environments'' = Inr JUndef"
    "get_prop ?x ''project'' = Inr (JObj [(''title'', JStr ''Spot'')])"
    "get_prop ?md ''schema_version'' = Inr (JStr ''0.9'')"
    by (simp_all add: architecture_with_def lookup_def)
  from validator_defaults [OF 1 2 3 4 5 6] obtain a md' where
    a: "validateArchitecture ?x = Inr a" "get_prop a ''metadata'' = Inr md'"
       "get_prop md' ''confidence_score'' = Inr (JNum (4 / 5))"
       "\<forall>k. k \<noteq> ''confidence_score'' \<longrightarrow> get_prop md' k = get_prop ?md k"
       "\<forall>k\<in>set [''interpretations'', ''missing_info'', ''characters'', ''environments''].
               \<exists>v. get_prop ?x k = Inr v \<and> get_prop a k = Inr (if truthy v then v else JArr [] [])"
       "\<forall>k. k \<notin> set [''metadata'', ''interpretations'', ''missing_info'', ''characters'', ''environments'']
               \<longrightarrow> get_prop a k = get_prop ?x k"
    by auto
  from a(4) 7(6) have s: "get_prop md' ''schema_version'' = Inr (JStr ''0.9'')" by simp
  from a(6) 7(5) have p: "get_prop a ''project'' = Inr (JObj [(''title'', JStr ''Spot'')])" by simp
  from a(5) 7(1-4) have c: "get_prop a ''interpretations'' = Inr (JArr [] [])"
    "get_prop a ''missing_info'' = Inr (JArr [] [])" "get_prop a ''characters'' = Inr (JArr [] [])"
    "get_prop a ''environments'' = Inr (JArr [] [])"
    by auto
  from 1 3 5 a(1-3) s p c show ?thesis by blast
qed

theorem validator_keeps_shots_witness:
  "validateArchitecture (architecture_with (JObj [(''confidence_score'', JNum (9 / 10))])
       [shot_with 1 ''a dog runs'', shot_with 2 ''the dog rests'']) =
     Inr (JObj [(''metadata'', JObj [(''confidence_score'', JNum (9 / 10))]),
                (''project'', JObj [(''title'', JStr ''Spot'')]),
                (''global_style'', JObj [(''mood'', JStr ''warm'')]),
                (''shots'', JArr [shot_with 1 ''a dog runs'', shot_with 2 ''the dog rests''] []),
                (''interpretations'', JArr [] []), (''missing_info'', JArr [] []),
                (''characters'', JArr [] []), (''environments'', JArr [] [])]) \<and>
   get_prop (JObj [(''metadata'', JObj [(''confidence_score'', JNum (9 / 10))]),
                (''project'', JObj [(''title'', JStr ''Spot'')]),
                (''global_style'', JObj [(''mood'', JStr ''warm'')]),
                (''shots'', JArr [shot_with 1 ''a dog runs'', shot_with 2 ''the dog rests''] []),
                (''interpretations'', JArr [] []), (''missing_info'', JArr [] []),
                (''characters'', JArr [] []), (''environments'', JArr [] [])]) ''shots'' =
     get_prop (architecture_with (JObj [(''confidence_score'', JNum (9 / 10))])
       [shot_with 1 ''a dog runs'', shot_with 2 ''the dog rests'']) ''shots''"
proof -
  have v: "validateArchitecture (architecture_with (JObj [(''confidence_score'', JNum (9 / 10))])
       [shot_with 1 ''a dog runs'', shot_with 2 ''the dog rests'']) =
     Inr (JObj [(''metadata'', JObj [(''confidence_score'', JNum (9 / 10))]),
                (''project'', JObj [(''title'', JStr ''Spot'')]),
                (''global_style'', JObj [(''mood'', JStr ''warm'')]),
                (''shots'', JArr [shot_with 1 ''a dog runs'', shot_with 2 ''the dog rests''] []),
                (''interpretations'', JArr [] []), (''missing_info'', JArr [] []),
                (''characters'', JArr [] []), (''environments'', JArr [] [])])"
    by (simp add: eval_validator)
  from validator_keeps_shots [OF v] v show ?thesis by blast
qed

section \<open>Properties of the confidence gate\<close>

lemma get_prop_field: "present v \<Longrightarrow> get_prop v k = Inr (field v k)"
  by (cases v) (auto simp: field_def present_def)

lemma get_prop_present: "get_prop v k = Inr x \<Longrightarrow> present v"
  by (cases v) (auto simp: present_def)

lemma filter_r_total: "(\<And>x. x \<in> set xs \<Longrightarrow> f x = Inr (p x)) \<Longrightarrow> filter_r f xs = Inr (filter p xs)"
  by (induction xs) auto

lemma map_r_total: "(\<And>x. x \<in> set xs \<Longrightarrow> f x = Inr (g x)) \<Longrightarrow> map_r f xs = Inr (map g xs)"
  by (induction xs) auto

lemma is_critical_qualifies: "present q \<Longrightarrow> is_critical q = Inr (qualifies q)"
  by (simp add: is_critical_def qualifies_def get_prop_field)

lemma question_of_reduced: "present q \<Longrightarrow> question_of q = Inr (reduced q)"
  by (simp add: question_of_def reduced_def get_prop_field)

lemma caveat_of_total: "present i \<Longrightarrow> \<exists>c. caveat_of i = Inr c"
  by (simp add: caveat_of_def get_prop_field)

lemma to_number_scalar: "\<not> is_object c \<Longrightarrow> \<exists>n. to_number P c = Inr n"
  by (cases c) (auto simp: to_number_def)

lemma is_uncertain_total:
  assumes "get_prop i ''confidence'' = Inr c" "\<not> is_object c"
  shows "\<exists>b. is_uncertain P i = Inr b"
proof -
  from to_number_scalar [OF assms(2)] obtain n where "to_number P c = Inr n" by blast
  with assms(1) show ?thesis by (simp add: is_uncertain_def js_lt_def)
qed

lemma filter_r_exists:
  "(\<And>x. x \<in> set xs \<Longrightarrow> \<exists>b. f x = Inr b) \<Longrightarrow> \<exists>ys. filter_r f xs = Inr ys \<and> set ys \<subseteq> set xs"
proof (induction xs)
  case Nil
  then show ?case by simp
next
  case (Cons x xs)
  then obtain b ys where "f x = Inr b" "filter_r f xs = Inr ys" "set ys \<subseteq> set xs"
    by (metis list.set_intros(1,2))
  then show ?case by auto
qed

lemma map_r_exists:
  "(\<And>x. x \<in> set xs \<Longrightarrow> \<exists>y. f x = Inr y) \<Longrightarrow> \<exists>ys. map_r f xs = Inr ys"
proof (induction xs)
  case Nil
  then show ?case by simp
next
  case (Cons x xs)
  then obtain y ys where "f x = Inr y" "map_r f xs = Inr ys"
    by (metis list.set_intros(1,2))
  then show ?case by auto
qed

lemma gate_complete:
  assumes "get_prop a ''metadata'' = Inr md" "get_prop md ''confidence_score'' = Inr (JNum n)"
    "n \<ge> 7 / 10"
  shows "confidence_gate P a = Inr (JObj [(''status'', JStr ''complete''), (''architecture'', a)])"
  using assms by (simp add: confidence_gate_def js_ge_def to_number_def)

lemma gate_low:
  assumes "get_prop a ''metadata'' = Inr md" "get_prop md ''confidence_score'' = Inr (JNum n)"
    "n < 7 / 10"
    and "get_prop a ''missing_info'' = Inr (JArr qs ps)" "\<forall>q\<in>set qs. present q"
  shows "confidence_gate P a =
     (if take 3 (filter qualifies qs) \<noteq> [] then
        Inr (JObj [(''status'', JStr ''needs_clarification''), (''architecture'', a),
                   (''questions'', JArr (map reduced (take 3 (filter qualifies qs))) [])])
      else
        bind (get_prop a ''interpretations'') (\<lambda>its.
        bind (js_filter (or_empty its) (is_uncertain P)) (\<lambda>low.
        bind (map_r caveat_of low) (\<lambda>cvs.
        Inr (JObj [(''status'', JStr ''complete_with_caveats''),
                   (''architecture'', a),
                   (''caveats'', JArr cvs [])])))))"
proof -
  have f: "filter_r is_critical qs = Inr (filter qualifies qs)"
    using assms(5) by (intro filter_r_total) (simp add: is_critical_qualifies)
  have m: "map_r question_of (take 3 (filter qualifies qs)) = Inr (map reduced (take 3 (filter qualifies qs)))"
  proof (rule map_r_total)
    fix x assume "x \<in> set (take 3 (filter qualifies qs))"
    then have "x \<in> set qs" by (auto dest: in_set_takeD)
    with assms(5) show "question_of x = Inr (reduced x)" by (simp add: question_of_reduced)
  qed
  show ?thesis
    using assms(1-4) f m
    by (simp add: confidence_gate_def js_ge_def to_number_def js_filter_def or_empty_def)
qed





section \<open>Properties of generation and refinement\<close>

lemma set_prop_Inr_object: "set_prop a k v = Inr a' \<Longrightarrow> is_object a'"
  by (cases a) auto

lemma number_prop_object: "get_prop v k = Inr (JNum n) \<Longrightarrow> named k \<Longrightarrow> is_object v"
  by (cases v) (auto simp: index_of_key_None named_def split: if_splits)

lemma default_confidence_score:
  assumes "default_confidence x = Inr a"
  shows "\<exists>md n. get_prop a ''metadata'' = Inr md \<and> is_object md \<and>
                get_prop md ''confidence_score'' = Inr (JNum n)"
proof -
  from assms obtain md0 cs where md0: "get_prop x ''metadata'' = Inr md0"
    and cs: "get_prop md0 ''confidence_score'' = Inr cs"
    by (auto simp: default_confidence_def bind_eq_Inr)
  show ?thesis
  proof (cases "is_number cs")
    case True
    then obtain n where "cs = JNum n" by (cases cs) auto
    with assms md0 cs True show ?thesis
      by (auto simp: default_confidence_def intro: number_prop_object)
  next
    case False
    with assms md0 cs obtain md' where
      "set_prop md0 ''confidence_score'' (JNum (4 / 5)) = Inr md'" "set_prop x ''metadata'' md' = Inr a"
      by (auto simp: default_confidence_def bind_eq_Inr)
    then have "get_prop a ''metadata'' = Inr md'" "is_object md'"
      "get_prop md' ''confidence_score'' = Inr (JNum (4 / 5))"
      by (auto simp: get_set_prop_same dest: set_prop_Inr_object)
    then show ?thesis by blast
  qed
qed

lemma validated_score:
  assumes "validateArchitecture x = Inr a"
  shows "\<exists>md n. get_prop a ''metadata'' = Inr md \<and> is_object md \<and>
                get_prop md ''confidence_score'' = Inr (JNum n)"
proof -
  from assms obtain a1 a2 a3 a4 where
    1: "default_confidence x = Inr a1" and 2: "default_array ''interpretations'' a1 = Inr a2"
    and 3: "default_array ''missing_info'' a2 = Inr a3" and 4: "default_array ''characters'' a3 = Inr a4"
    and 5: "default_array ''environments'' a4 = Inr a"
    by (auto simp: validateArchitecture_Inr)
  have "get_prop a ''metadata'' = get_prop a1 ''metadata''"
    using default_array_get [OF 5, of "''metadata''"] default_array_get [OF 4, of "''metadata''"]
      default_array_get [OF 3, of "''metadata''"] default_array_get [OF 2, of "''metadata''"]
    by simp
  with default_confidence_score [OF 1] show ?thesis by simp
qed

lemma named_not_indexed: "named k \<Longrightarrow> map_of (indexed i xs) k = None"
proof (induction xs arbitrary: i)
  case Nil
  then show ?case by simp
next
  case (Cons x xs)
  have "nat_to_string i \<noteq> k"
  proof
    assume e: "nat_to_string i = k"
    with nat_to_string_nonempty [of i] have "k \<noteq> []" by auto
    with e have "hd k \<in> set (nat_to_string i)" by auto
    with digits_nat_to_string [of i] Cons.prems \<open>k \<noteq> []\<close> show False
      by (auto simp: named_def)
  qed
  with Cons show ?case by simp
qed

lemma lookup_own_props: "is_object md \<Longrightarrow> named k \<Longrightarrow> get_prop md k = Inr (lookup (own_props md) k)"
  by (cases md) (auto simp: lookup_def map_add_def named_not_indexed index_of_key_None named_def)

lemma parseResponse_Inr:
  "fst (parseResponse P response) = Inr a \<longleftrightarrow>
   (\<exists>text parsed. response = JStr text \<and> json_parse P (trim (strip_fences text)) = Some parsed \<and>
      validateArchitecture parsed = Inr a)"
  by (cases response) (auto simp: parseResponse_def Let_def split: option.splits sum.splits)

lemma generateArchitecture_Inr:
  assumes "generateArchitecture P E input options = Inr a"
  shows "\<exists>prompt response v md platform.
           callClaudeAPI P E prompt = Inr response \<and> fst (parseResponse P response) = Inr v \<and>
           get_prop v ''metadata'' = Inr md \<and>
           platform = default_to (JStr ''platform-agnostic'') (field (default_to (JObj []) options) ''platform'') \<and>
           set_prop v ''metadata''
             (JObj (assign (assign (assign (own_props md)
                ''schema_version'' (JStr ''1.0.0''))
                ''created_at'' (JStr (now E)))
                ''platform_target'' platform)) = Inr a"
proof -
  from assms obtain x prompt response v md where
    "get_prop (default_to (JObj []) options) ''platform'' = Inr x"
    "callClaudeAPI P E prompt = Inr response" "fst (parseResponse P response) = Inr v"
    "get_prop v ''metadata'' = Inr md"
    "set_prop v ''metadata''
       (JObj (assign (assign (assign (own_props md)
          ''schema_version'' (JStr ''1.0.0''))
          ''created_at'' (JStr (now E)))
          ''platform_target'' (default_to (JStr ''platform-agnostic'') x))) = Inr a"
    unfolding generateArchitecture_def Let_def by (auto simp: bind_eq_Inr)
  then show ?thesis by (auto simp: field_def)
qed


lemma generated_fields:
  assumes "generateArchitecture P E input options = Inr a"
  shows "\<exists>v. (\<exists>x. validateArchitecture x = Inr v) \<and> (\<forall>k. k \<noteq> ''metadata'' \<longrightarrow> get_prop a k = get_prop v k) \<and>
             (\<exists>md n. get_prop a ''metadata'' = Inr md \<and> get_prop md ''confidence_score'' = Inr (JNum n))"
proof -
  from generateArchitecture_Inr [OF assms] obtain response v vmd platform where
    v: "fst (parseResponse P response) = Inr v" and vmd: "get_prop v ''metadata'' = Inr vmd"
    and a: "set_prop v ''metadata''
             (JObj (assign (assign (assign (own_props vmd)
                ''schema_version'' (JStr ''1.0.0''))
                ''created_at'' (JStr (now E)))
                ''platform_target'' platform)) = Inr a"
    by blast
  from v obtain x where x: "validateArchitecture x = Inr v"
    by (auto simp: parseResponse_Inr)
  from validated_score [OF x] vmd obtain n where
    n: "is_object vmd" "get_prop vmd ''confidence_score'' = Inr (JNum n)" by auto
  let ?md = "JObj (assign (assign (assign (own_props vmd)
                ''schema_version'' (JStr ''1.0.0''))
                ''created_at'' (JStr (now E)))
                ''platform_target'' platform)"
  have "get_prop a ''metadata'' = Inr ?md" using a by (simp add: get_set_prop_same)
  moreover have "get_prop ?md ''confidence_score'' = Inr (JNum n)"
    using lookup_own_props [OF n(1), of "''confidence_score''"] n(2) by (simp add: lookup_assign)
  moreover have "\<forall>k. k \<noteq> ''metadata'' \<longrightarrow> get_prop a k = get_prop v k"
    using a by (simp add: get_set_prop_other)
  ultimately show ?thesis using x by blast
qed

text \<open>
  Claim C1, as amended. An architecture that the validator or the generation returned has
  a numeric confidence. When it is 0.7 or more the status is \<^verbatim>\<open>complete\<close>, whatever
  \<^verbatim>\<open>interpretations\<close> and \<^verbatim>\<open>missing_info\<close> hold. When \<^verbatim>\<open>missing_info\<close> and
  \<^verbatim>\<open>interpretations\<close> are sequences whose entries are neither \<^verbatim>\<open>null\<close> nor
  \<^verbatim>\<open>undefined\<close>, the confidence of an interpretation being no object, the gate returns,
  with the architecture, exactly one of the statuses \<^verbatim>\<open>complete\<close>,
  \<^verbatim>\<open>needs_clarification\<close>, \<^verbatim>\<open>complete_with_caveats\<close>. The validator does not check
  that \<^verbatim>\<open>missing_info\<close> is a sequence, and on a text the gate throws.
\<close>

theorem gate_total_on_sequences:
  assumes "validateArchitecture x = Inr a \<or> generateArchitecture P E input options = Inr a"
  shows "\<exists>md n. get_prop a ''metadata'' = Inr md \<and> get_prop md ''confidence_score'' = Inr (JNum n) \<and>
           (n \<ge> 7 / 10 \<longrightarrow>
              confidence_gate P a = Inr (JObj [(''status'', JStr ''complete''), (''architecture'', a)])) \<and>
           ((\<exists>qs ps. get_prop a ''missing_info'' = Inr (JArr qs ps) \<and> (\<forall>q\<in>set qs. present q)) \<and>
            (\<exists>its ps. get_prop a ''interpretations'' = Inr (JArr its ps) \<and>
               (\<forall>i\<in>set its. present i \<and> \<not> is_object (field i ''confidence''))) \<longrightarrow>
              (\<exists>r s. confidence_gate P a = Inr r \<and> get_prop r ''status'' = Inr (JStr s) \<and>
                     s \<in> set [''complete'', ''needs_clarification'', ''complete_with_caveats''] \<and>
                     get_prop r ''architecture'' = Inr a))"
proof -
  from assms obtain md n where md: "get_prop a ''metadata'' = Inr md"
    and n: "get_prop md ''confidence_score'' = Inr (JNum n)"
    using validated_score [of x a] generated_fields [of P E input options a] by blast
  have high: "confidence_gate P a = Inr (JObj [(''status'', JStr ''complete''), (''architecture'', a)])"
    if "n \<ge> 7 / 10"
    using md n that by (rule gate_complete)
  have total: "\<exists>r s. confidence_gate P a = Inr r \<and> get_prop r ''status'' = Inr (JStr s) \<and>
                     s \<in> set [''complete'', ''needs_clarification'', ''complete_with_caveats''] \<and>
                     get_prop r ''architecture'' = Inr a"
    if mi: "get_prop a ''missing_info'' = Inr (JArr qs ps)" "\<forall>q\<in>set qs. present q"
      and its: "get_prop a ''interpretations'' = Inr (JArr its ps')"
        "\<forall>i\<in>set its. present i \<and> \<not> is_object (field i ''confidence'')"
    for qs ps its ps'
  proof (cases "n \<ge> 7 / 10")
    case True
    from high [OF this] show ?thesis by (simp add: lookup_def)
  next
    case False
    then have low: "n < 7 / 10" by simp
    note g = gate_low [OF md n low mi, of P]
    show ?thesis
    proof (cases "take 3 (filter qualifies qs) \<noteq> []")
      case True
      with g show ?thesis by (simp add: lookup_def)
    next
      case False
      have "\<exists>b. is_uncertain P i = Inr b" if "i \<in> set its" for i
        using that its(2) by (intro is_uncertain_total [where c = "field i ''confidence''"])
          (simp_all add: get_prop_field)
      from filter_r_exists [of its "is_uncertain P", OF this] obtain low' where
        l: "filter_r (is_uncertain P) its = Inr low'" "set low' \<subseteq> set its" by blast
      have "\<exists>c. caveat_of i = Inr c" if "i \<in> set low'" for i
        using that l(2) its(2) by (intro caveat_of_total) blast
      from map_r_exists [of low' caveat_of, OF this] obtain cvs where
        c: "map_r caveat_of low' = Inr cvs" by blast
      from g False its(1) l(1) c show ?thesis
        by (simp add: js_filter_def or_empty_def lookup_def)
    qed
  qed
  from md n high total show ?thesis by blast
qed

text \<open>
  A completion with the confidence 0.4 whose \<^verbatim>\<open>missing_info\<close> is the text
  \<^verbatim>\<open>none\<close>: the generation succeeds, and the gate calls \<^verbatim>\<open>filter\<close> on a string.
\<close>

theorem gate_throws_on_text_for_questions:
  "generateArchitecture runtime (backend completion_with_text_for_questions) (JStr ''A dog in a park'') JUndef =
     Inr (JObj
       [(''metadata'',
         JObj
          [(''confidence_score'', JNum (2 / 5)),
           (''schema_version'', JStr ''1.0.0''),
           (''created_at'', JStr ''2025-01-01T00:00:00.000Z''),
           (''platform_target'', JStr ''platform-agnostic'')]),
        (''project'', JObj [(''title'', JStr ''Spot'')]),
        (''global_style'', JObj [(''mood'', JStr ''warm'')]),
        (''shots'',
         JArr
          [JObj
            [(''shot_number'', JNum 1),
             (''prompt'', JObj [(''full_prompt'', JStr ''a dog runs'')])]]
          []),
        (''missing_info'', JStr ''none''),
        (''interpretations'', JArr [] []), (''characters'', JArr [] []),
        (''environments'', JArr [] [])]) \<and>
   processWithConfidenceGating runtime (backend completion_with_text_for_questions)
     (JStr ''A dog in a park'') JUndef = Inl TypeError"
  by code_simp


lemma validated_with_fixpoint: "validateArchitecture (validated_with c mi) = Inr (validated_with c (or_empty mi))"
  by (simp add: validated_with_def eval_validator)

theorem gate_total_on_sequences_witness:
  "validateArchitecture (validated_with (9 / 10) (JStr ''none'')) = Inr (validated_with (9 / 10) (JStr ''none'')) \<and>
   confidence_gate runtime (validated_with (9 / 10) (JStr ''none'')) =
     Inr (JObj [(''status'', JStr ''complete''), (''architecture'', validated_with (9 / 10) (JStr ''none''))]) \<and>
   validateArchitecture (validated_with (1 / 2) (JArr [question_with ''Q2'' ''low'' (JBool True)] [])) =
     Inr (validated_with (1 / 2) (JArr [question_with ''Q2'' ''low'' (JBool True)] [])) \<and>
   (\<exists>r s. confidence_gate runtime (validated_with (1 / 2) (JArr [question_with ''Q2'' ''low'' (JBool True)] [])) = Inr r \<and>
      get_prop r ''status'' = Inr (JStr s) \<and>
      s \<in> set [''complete'', ''needs_clarification'', ''complete_with_caveats''])"
proof -
  let ?a = "validated_with (9 / 10) (JStr ''none'')"
  let ?b = "validated_with (1 / 2) (JArr [question_with ''Q2'' ''low'' (JBool True)] [])"
  have va: "validateArchitecture ?a = Inr ?a" and vb: "validateArchitecture ?b = Inr ?b"
    by (simp_all add: validated_with_fixpoint or_empty_def)
  have sa: "get_prop ?a ''metadata'' = Inr (JObj [(''confidence_score'', JNum (9 / 10))])"
    and sb: "get_prop ?b ''metadata'' = Inr (JObj [(''confidence_score'', JNum (1 / 2))])"
    by (simp_all add: validated_with_def lookup_def)
  from gate_total_on_sequences [of ?a ?a runtime, OF disjI1 [OF va]] sa
  have 1: "confidence_gate runtime ?a = Inr (JObj [(''status'', JStr ''complete''), (''architecture'', ?a)])"
    by (auto simp: lookup_def)
  have tb: "(\<exists>qs ps. get_prop ?b ''missing_info'' = Inr (JArr qs ps) \<and> (\<forall>q\<in>set qs. present q)) \<and>
            (\<exists>its ps. get_prop ?b ''interpretations'' = Inr (JArr its ps) \<and>
               (\<forall>i\<in>set its. present i \<and> \<not> is_object (field i ''confidence'')))"
    by (simp add: validated_with_def lookup_def present_def question_with_def field_def)
  from gate_total_on_sequences [of ?b ?b runtime, OF disjI1 [OF vb]] tb
  have 2: "\<exists>r s. confidence_gate runtime ?b = Inr r \<and> get_prop r ''status'' = Inr (JStr s) \<and>
      s \<in> set [''complete'', ''needs_clarification'', ''complete_with_caveats'']"
    by blast
  from va vb 1 2 show ?thesis by blast
qed



lemma refineArchitecture_Inr:
  assumes "refineArchitecture P E cur feedback options = Inr r"
  shows "\<exists>v md nt. get_prop v ''metadata'' = Inr md \<and> refinement_note feedback = Inr nt \<and>
           set_prop v ''metadata''
             (JObj (assign (assign (own_props md) ''updated_at'' (JStr (now E))) ''refinement_note'' nt)) = Inr r"
proof -
  from assms obtain v md nt where
    "get_prop v ''metadata'' = Inr md" "refinement_note feedback = Inr nt"
    "set_prop v ''metadata''
       (JObj (assign (assign (own_props md) ''updated_at'' (JStr (now E))) ''refinement_note'' nt)) = Inr r"
    unfolding refineArchitecture_def Let_def by (auto simp: bind_eq_Inr)
  then show ?thesis by blast
qed

text \<open>
  Claim C9. In what a successful refinement returns, \<^verbatim>\<open>metadata.updated_at\<close> is the
  time of the call and \<^verbatim>\<open>metadata.refinement_note\<close> is the feedback itself when it has
  at most 100 characters, and its first 100 characters followed by three dots when it
  has more.
\<close>

theorem refinement_stamps_note:
  assumes "refineArchitecture P E cur feedback options = Inr r"
  shows "\<exists>fb md. feedback = JStr fb \<and> get_prop r ''metadata'' = Inr md \<and>
           get_prop md ''updated_at'' = Inr (JStr (now E)) \<and>
           get_prop md ''refinement_note'' =
             Inr (JStr (if length fb > 100 then take 100 fb @ ''...'' else fb))"
proof -
  from refineArchitecture_Inr [OF assms] obtain v md nt where
    n: "refinement_note feedback = Inr nt"
    and r: "set_prop v ''metadata''
       (JObj (assign (assign (own_props md) ''updated_at'' (JStr (now E))) ''refinement_note'' nt)) = Inr r"
    by blast
  from n obtain fb where fb: "feedback = JStr fb"
    and nt: "nt = JStr (take 100 fb @ (if length fb > 100 then ''...'' else []))"
    by (cases feedback) (auto simp: refinement_note_def)
  let ?md = "JObj (assign (assign (own_props md) ''updated_at'' (JStr (now E))) ''refinement_note'' nt)"
  have "get_prop r ''metadata'' = Inr ?md" using r by (simp add: get_set_prop_same)
  moreover have "get_prop ?md ''updated_at'' = Inr (JStr (now E))"
    by (simp add: lookup_assign)
  moreover have "get_prop ?md ''refinement_note'' =
      Inr (JStr (if length fb > 100 then take 100 fb @ ''...'' else fb))"
    using nt by (simp add: lookup_assign)
  ultimately show ?thesis using fb by blast
qed


theorem refinement_stamps_note_witness:
  "refineArchitecture runtime (backend completion_with_metadata) (validated_with (1 / 2) (JArr [] []))
     (JStr long_feedback) (JObj [(''targetShots'', JArr [JNum 1] [])]) =
   Inr (JObj
       [(''metadata'',
         JObj
          [(''schema_version'', JStr ''0.1''),
           (''confidence_score'', JNum (9 / 10)),
           (''platform_target'', JStr ''sora''), (''model'', JStr ''m1''),
           (''updated_at'', JStr ''2025-01-01T00:00:00.000Z''),
           (''refinement_note'',
            JStr
             ''Make the opening slower and let the dog enter from the left, then hold on the park bench for a beat ...'')]),
        (''project'', JObj [(''title'', JStr ''Spot'')]),
        (''global_style'', JObj [(''mood'', JStr ''warm'')]),
        (''shots'',
         JArr
          [JObj
            [(''shot_number'', JNum 1),
             (''prompt'', JObj [(''full_prompt'', JStr ''a dog runs'')])]]
          []),
        (''interpretations'', JArr [] []), (''missing_info'', JArr [] []),
        (''characters'', JArr [] []), (''environments'', JArr [] [])]) \<and>
   length long_feedback = 107 \<and>
   (\<exists>md. get_prop (JObj
       [(''metadata'',
         JObj
          [(''schema_version'', JStr ''0.1''),
           (''confidence_score'', JNum (9 / 10)),
           (''platform_target'', JStr ''sora''), (''model'', JStr ''m1''),
           (''updated_at'', JStr ''2025-01-01T00:00:00.000Z''),
           (''refinement_note'',
            JStr
             ''Make the opening slower and let the dog enter from the left, then hold on the park bench for a beat ...'')]),
        (''project'', JObj [(''title'', JStr ''Spot'')]),
        (''global_style'', JObj [(''mood'', JStr ''warm'')]),
        (''shots'',
         JArr
          [JObj
            [(''shot_number'', JNum 1),
             (''prompt'', JObj [(''full_prompt'', JStr ''a dog runs'')])]]
          []),
        (''interpretations'', JArr [] []), (''missing_info'', JArr [] []),
        (''characters'', JArr [] []), (''environments'', JArr [] [])]) ''metadata'' = Inr md \<and>
      get_prop md ''refinement_note'' = Inr (JStr (take 100 long_feedback @ ''...'')))"
proof -
  have g: "refineArchitecture runtime (backend completion_with_metadata) (validated_with (1 / 2) (JArr [] []))
     (JStr long_feedback) (JObj [(''targetShots'', JArr [JNum 1] [])]) =
   Inr (JObj
       [(''metadata'',
         JObj
          [(''schema_version'', JStr ''0.1''),
           (''confidence_score'', JNum (9 / 10)),
           (''platform_target'', JStr ''sora''), (''model'', JStr ''m1''),
           (''updated_at'', JStr ''2025-01-01T00:00:00.000Z''),
           (''refinement_note'',
            JStr
             ''Make the opening slower and let the dog enter from the left, then hold on the park bench for a beat ...'')]),
        (''project'', JObj [(''title'', JStr ''Spot'')]),
        (''global_style'', JObj [(''mood'', JStr ''warm'')]),
        (''shots'',
         JArr
          [JObj
            [(''shot_number'', JNum 1),
             (''prompt'', JObj [(''full_prompt'', JStr ''a dog runs'')])]]
          []),
        (''interpretations'', JArr [] []), (''missing_info'', JArr [] []),
        (''characters'', JArr [] []), (''environments'', JArr [] [])])"
    by code_simp
  have l: "length long_feedback = 107" by (simp add: long_feedback_def)
  from refinement_stamps_note [OF g] g l show ?thesis by auto
qed

section \<open>Validation is idempotent\<close>

lemma assign_same: "map_of kvs k = Some v \<Longrightarrow> assign kvs k v = kvs"
  by (induction kvs) auto

lemma set_prop_same:
  assumes "is_object a" "named k" "get_prop a k = Inr v" "v \<noteq> JUndef"
  shows "set_prop a k v = Inr a"
proof -
  have m: "map_of kvs k = Some (lookup kvs k)" if "lookup kvs k \<noteq> JUndef" for kvs
    using that by (auto simp: lookup_def split: option.splits)
  from assms show ?thesis
    by (cases a) (auto simp: index_of_key_None named_def intro!: assign_same m)
qed

lemma default_confidence_object:
  "default_confidence x = Inr a \<Longrightarrow> is_object x \<Longrightarrow> is_object a"
  by (auto simp: default_confidence_def bind_eq_Inr split: if_splits dest: set_prop_Inr_object)

lemma default_array_truthy:
  assumes "default_array k a = Inr a'" "named k"
  shows "is_object a' \<and> (\<exists>w. get_prop a' k = Inr w \<and> truthy w) \<and>
         (\<forall>k'. k' \<noteq> k \<longrightarrow> get_prop a' k' = get_prop a k')"
proof -
  from assms(1) obtain v where v: "get_prop a k = Inr v" and s: "set_prop a k (or_empty v) = Inr a'"
    by (auto simp: default_array_def bind_eq_Inr)
  have "truthy (or_empty v)" by (simp add: or_empty_def)
  with s assms(2) show ?thesis
    by (auto simp: get_set_prop_same get_set_prop_other dest: set_prop_Inr_object)
qed

lemma default_array_fixpoint:
  assumes "is_object a" "named k" "get_prop a k = Inr w" "truthy w"
  shows "default_array k a = Inr a"
proof -
  from assms(4) have "w \<noteq> JUndef" "or_empty w = w" by (auto simp: or_empty_def)
  with set_prop_same [OF assms(1-3)] assms(3) show ?thesis
    by (simp add: default_array_def)
qed

lemma validated_fixpoint:
  assumes "validateArchitecture x = Inr a"
  shows "validateArchitecture a = Inr a"
proof -
  from assms obtain shots a1 a2 a3 a4 where
    req: "missing_fields x required = Inr []"
    and sh: "get_prop x ''shots'' = Inr shots" "for_each_shot shots = Inr ()"
    and 1: "default_confidence x = Inr a1" and 2: "default_array ''interpretations'' a1 = Inr a2"
    and 3: "default_array ''missing_info'' a2 = Inr a3" and 4: "default_array ''characters'' a3 = Inr a4"
    and 5: "default_array ''environments'' a4 = Inr a"
    by (auto simp: validateArchitecture_Inr)
  from req [unfolded missing_fields_Nil] have t: "\<forall>f\<in>set required. \<exists>v. get_prop x f = Inr v \<and> truthy v" .
  then have "\<exists>v. get_prop x ''metadata'' = Inr v \<and> truthy v" by (simp add: required_def)
  then have "is_object x" by (auto intro: truthy_prop_object [where k = "''metadata''"])
  from default_confidence_score [OF 1] obtain md n where
    md: "get_prop a1 ''metadata'' = Inr md" "is_object md" "get_prop md ''confidence_score'' = Inr (JNum n)"
    by blast
  note d2 = default_array_truthy [OF 2] and d3 = default_array_truthy [OF 3]
    and d4 = default_array_truthy [OF 4] and d5 = default_array_truthy [OF 5]
  have obj: "is_object a" using d5 by simp
  have o1: "\<forall>k. k \<noteq> ''metadata'' \<longrightarrow> get_prop a1 k = get_prop x k"
    using 1 by (simp add: default_confidence_shots)
  have meta: "get_prop a ''metadata'' = Inr md" using md(1) d2 d3 d4 d5 by simp
  have i: "\<exists>w. get_prop a ''interpretations'' = Inr w \<and> truthy w" using d2 d3 d4 d5 by simp
  have m: "\<exists>w. get_prop a ''missing_info'' = Inr w \<and> truthy w" using d3 d4 d5 by simp
  have c: "\<exists>w. get_prop a ''characters'' = Inr w \<and> truthy w" using d4 d5 by simp
  have e: "\<exists>w. get_prop a ''environments'' = Inr w \<and> truthy w" using d5 by simp
  have same: "get_prop a k = get_prop x k"
    if "k \<notin> set [''metadata'', ''interpretations'', ''missing_info'', ''characters'', ''environments'']" for k
    using that o1 d2 d3 d4 d5 by simp
  have "truthy md" using md(2) by (cases md) auto
  with meta t same [of "''project''"] same [of "''global_style''"] same [of "''shots''"]
  have req': "missing_fields a required = Inr []"
    unfolding missing_fields_Nil by (simp add: required_def)
  have sh': "get_prop a ''shots'' = Inr shots" using same [of "''shots''"] sh(1) by simp
  have c1: "default_confidence a = Inr a" using meta md(3) by (simp add: default_confidence_def)
  from i obtain wi where "get_prop a ''interpretations'' = Inr wi" "truthy wi" by blast
  then have c2: "default_array ''interpretations'' a = Inr a"
    using obj by (intro default_array_fixpoint) simp_all
  from m obtain wm where "get_prop a ''missing_info'' = Inr wm" "truthy wm" by blast
  then have c3: "default_array ''missing_info'' a = Inr a"
    using obj by (intro default_array_fixpoint) simp_all
  from c obtain wc where "get_prop a ''characters'' = Inr wc" "truthy wc" by blast
  then have c4: "default_array ''characters'' a = Inr a"
    using obj by (intro default_array_fixpoint) simp_all
  from e obtain we where "get_prop a ''environments'' = Inr we" "truthy we" by blast
  then have c5: "default_array ''environments'' a = Inr a"
    using obj by (intro default_array_fixpoint) simp_all
  from req' sh' sh(2) c1 c2 c3 c4 c5 show ?thesis
    unfolding validateArchitecture_Inr by blast
qed

section \<open>Properties of the response extractor\<close>

lemma remove_all_Nil [simp]: "remove_all pat [] = []"
  by (simp add: remove_all.simps)

lemma remove_all_match:
  "pat \<noteq> [] \<Longrightarrow> s \<noteq> [] \<Longrightarrow> prefix pat s \<Longrightarrow> remove_all pat s = remove_all pat (after_match pat s)"
  by (subst remove_all.simps) simp

lemma remove_all_copy:
  "pat \<noteq> [] \<Longrightarrow> \<not> prefix pat (c # cs) \<Longrightarrow> remove_all pat (c # cs) = c # remove_all pat cs"
  by (subst remove_all.simps) simp

lemma remove_all_absent: "pat \<noteq> [] \<Longrightarrow> \<not> sublist pat s \<Longrightarrow> remove_all pat s = s"
proof (induction s)
  case Nil
  then show ?case by simp
next
  case (Cons c cs)
  then have "\<not> prefix pat (c # cs)" "\<not> sublist pat cs"
    by (auto simp: sublist_Cons_right)
  with Cons show ?case by (simp add: remove_all_copy)
qed

lemma remove_all_foreign_prefix:
  "pat \<noteq> [] \<Longrightarrow> hd pat \<notin> set xs \<Longrightarrow> remove_all pat (xs @ ys) = xs @ remove_all pat ys"
proof (induction xs)
  case Nil
  then show ?case by simp
next
  case (Cons x xs)
  then have "\<not> prefix pat (x # xs @ ys)"
    by (cases pat) auto
  with Cons show ?case by (simp add: remove_all_copy)
qed

lemma ticks_head:
  assumes "remove_all ''```'' s = CHR 0x60 # r"
  shows "\<exists>cs. s = CHR 0x60 # cs \<and> (prefix ''```'' s \<or> r = remove_all ''```'' cs)"
proof (cases s)
  case Nil
  with assms show ?thesis by simp
next
  case (Cons c cs)
  show ?thesis
  proof (cases "prefix ''```'' s")
    case True
    with Cons show ?thesis by auto
  next
    case False
    with Cons assms show ?thesis by (simp add: remove_all_copy)
  qed
qed

lemma no_ticks_left: "\<not> sublist ''```'' (remove_all ''```'' s)"
proof (induction "''```''" s rule: remove_all.induct)
  case (1 s)
  show ?case
  proof (cases "s = []")
    case True
    then show ?thesis by simp
  next
    case ne: False
    show ?thesis
    proof (cases "prefix ''```'' s")
      case True
      with 1(1) ne have "\<not> sublist ''```'' (remove_all ''```'' (after_match ''```'' s))" by simp
      with True ne show ?thesis by (simp add: remove_all_match)
    next
      case False
      from ne obtain c cs where s: "s = c # cs" by (cases s) auto
      with 1(2) ne False have ih: "\<not> sublist ''```'' (remove_all ''```'' cs)" by simp
      have r: "remove_all ''```'' s = c # remove_all ''```'' cs"
        using False s by (simp add: remove_all_copy)
      have "\<not> prefix ''```'' (c # remove_all ''```'' cs)"
      proof
        assume p: "prefix ''```'' (c # remove_all ''```'' cs)"
        then have c: "c = CHR 0x60" by simp
        from p obtain r1 where r1: "remove_all ''```'' cs = CHR 0x60 # r1" "prefix ''`'' r1"
          by (cases "remove_all ''```'' cs") auto
        from ticks_head [OF r1(1)] obtain cs1 where cs1: "cs = CHR 0x60 # cs1"
          and d1: "prefix ''```'' cs \<or> r1 = remove_all ''```'' cs1" by blast
        from d1 show False
        proof
          assume "prefix ''```'' cs"
          with cs1 c s False show False by (cases cs1) auto
        next
          assume e: "r1 = remove_all ''```'' cs1"
          from r1(2) obtain r2 where "r1 = CHR 0x60 # r2" by (cases r1) auto
          with e have "remove_all ''```'' cs1 = CHR 0x60 # r2" by simp
          from ticks_head [OF this] obtain cs2 where "cs1 = CHR 0x60 # cs2" by blast
          with cs1 c s False show False by simp
        qed
      qed
      with ih r show ?thesis by (simp add: sublist_Cons_right)
    qed
  qed
qed

lemma strip_fences_clean: "\<not> sublist ''```'' (strip_fences s)"
  by (simp add: strip_fences_def js_includes_def no_ticks_left)

lemma sublist_dropWhile: "sublist xs (dropWhile p ys) \<Longrightarrow> sublist xs ys"
  by (metis sublist_order.order_trans suffix_dropWhile suffix_imp_sublist)

lemma sublist_trim: "sublist xs (trim s) \<Longrightarrow> sublist xs s"
proof -
  assume "sublist xs (trim s)"
  then have "sublist (rev xs) (dropWhile is_space (rev (dropWhile is_space s)))"
    by (simp add: trim_def sublist_rev_left del: sublist_rev)
  then have "sublist (rev xs) (rev (dropWhile is_space s))" by (rule sublist_dropWhile)
  then have "sublist xs (dropWhile is_space s)" by (simp add: sublist_rev)
  then show ?thesis by (rule sublist_dropWhile)
qed

lemma trim_snoc_space:
  assumes "is_space c"
  shows "trim (xs @ [c]) = trim xs"
proof (cases "\<forall>x\<in>set xs. is_space x")
  case True
  with assms have all: "\<forall>x\<in>set (xs @ [c]). is_space x" by simp
  have a: "dropWhile is_space (xs @ [c]) = []"
    using all by (rule iffD2 [OF dropWhile_eq_Nil_conv])
  have b: "dropWhile is_space xs = []"
    using True by (rule iffD2 [OF dropWhile_eq_Nil_conv])
  show ?thesis unfolding trim_def a b by simp
next
  case False
  then have a: "dropWhile is_space (xs @ [c]) = dropWhile is_space xs @ [c]"
    by (simp add: dropWhile_append)
  show ?thesis unfolding trim_def a using assms by simp
qed


lemma fenced_json:
  assumes "CHR 0x60 \<notin> set body"
  shows "trim (strip_fences (''```json\<newline>'' @ body @ ''\<newline>```'')) = trim body"
proof -
  have inc: "js_includes (''```json\<newline>'' @ body @ ''\<newline>```'') ''```json''"
    unfolding js_includes_def by (rule prefix_imp_sublist) simp
  have "remove_all ''```json'' (''```json\<newline>'' @ body @ ''\<newline>```'') =
        remove_all ''```json'' (body @ ''\<newline>```'')"
    by (subst remove_all_match) (simp_all add: after_match_def)
  also have "\<dots> = body @ remove_all ''```json'' ''\<newline>```''"
    using assms by (intro remove_all_foreign_prefix) simp_all
  also have "remove_all ''```json'' ''\<newline>```'' = ''\<newline>```''"
    by (rule remove_all_absent) (simp_all add: sublist_code)
  finally have 1: "remove_all ''```json'' (''```json\<newline>'' @ body @ ''\<newline>```'') = body @ ''\<newline>```''" .
  have "remove_all ''```'' (body @ ''\<newline>```'') = body @ remove_all ''```'' ''\<newline>```''"
    using assms by (intro remove_all_foreign_prefix) simp_all
  also have "remove_all ''```'' ''\<newline>```'' = ''\<newline>''"
    by (simp add: remove_all_copy remove_all_match after_match_def)
  finally have 2: "remove_all ''```'' (body @ ''\<newline>```'') = body @ ''\<newline>''" .
  have "is_space CHR ''\<newline>''" by (simp add: is_space_def)
  then have "trim (body @ ''\<newline>'') = trim body" by (rule trim_snoc_space)
  with inc 1 2 show ?thesis by (simp add: strip_fences_def)
qed

lemma fenced_plain:
  assumes "CHR 0x60 \<notin> set body"
  shows "trim (strip_fences (''```\<newline>'' @ body @ ''\<newline>```'')) = trim body"
proof -
  have inc: "js_includes (''```\<newline>'' @ body @ ''\<newline>```'') ''```''"
    unfolding js_includes_def by (rule prefix_imp_sublist) simp
  have ninc: "\<not> js_includes (''```\<newline>'' @ body @ ''\<newline>```'') ''```json''"
  proof
    assume "js_includes (''```\<newline>'' @ body @ ''\<newline>```'') ''```json''"
    then have "sublist ''```json'' (''```\<newline>'' @ body @ ''\<newline>```'')" by (simp add: js_includes_def)
    then have "sublist ''```json'' (body @ ''\<newline>```'')"
      by (simp add: sublist_Cons_right)
    then have "sublist ''```json'' body \<or> sublist ''```json'' ''\<newline>```'' \<or>
      (\<exists>xs1 xs2. ''```json'' = xs1 @ xs2 \<and> suffix xs1 body \<and> prefix xs2 ''\<newline>```'')"
      by (simp only: sublist_append)
    moreover have "\<not> sublist ''```json'' body"
      using assms by (auto dest: set_mono_sublist)
    moreover have "\<not> sublist ''```json'' ''\<newline>```''" by (simp add: sublist_code)
    moreover have "\<not> (\<exists>xs1 xs2. ''```json'' = xs1 @ xs2 \<and> suffix xs1 body \<and> prefix xs2 ''\<newline>```'')"
    proof
      assume "\<exists>xs1 xs2. ''```json'' = xs1 @ xs2 \<and> suffix xs1 body \<and> prefix xs2 ''\<newline>```''"
      then obtain xs1 xs2 where e: "''```json'' = xs1 @ xs2" and s: "suffix xs1 body"
        and p: "prefix xs2 ''\<newline>```''" by blast
      show False
      proof (cases xs1)
        case Nil
        with e have "xs2 = ''```json''" by simp
        with p show ?thesis by simp
      next
        case (Cons x xs)
        with e have "x = CHR 0x60" by simp
        with Cons s assms show ?thesis by (auto simp: suffix_def)
      qed
    qed
    ultimately show False by blast
  qed
  have "remove_all ''```'' (''```\<newline>'' @ body @ ''\<newline>```'') = remove_all ''```'' (body @ ''\<newline>```'')"
    by (subst remove_all_match) (simp_all add: after_match_def)
  also have "\<dots> = body @ remove_all ''```'' ''\<newline>```''"
    using assms by (intro remove_all_foreign_prefix) simp_all
  also have "remove_all ''```'' ''\<newline>```'' = ''\<newline>''"
    by (simp add: remove_all_copy remove_all_match after_match_def)
  finally have 2: "remove_all ''```'' (''```\<newline>'' @ body @ ''\<newline>```'') = body @ ''\<newline>''" .
  have "is_space CHR ''\<newline>''" by (simp add: is_space_def)
  then have "trim (body @ ''\<newline>'') = trim body" by (rule trim_snoc_space)
  with inc ninc 2 show ?thesis by (simp add: strip_fences_def)
qed







section \<open>Properties of the prompt assembler\<close>

lemma sublist_across:
  assumes "c \<notin> set tok" "tok \<noteq> []"
  shows "sublist tok (xs @ c # ys) \<longleftrightarrow> sublist tok xs \<or> sublist tok ys"
proof
  assume "sublist tok (xs @ c # ys)"
  then consider "sublist tok xs" | "sublist tok (c # ys)"
    | xs1 xs2 where "tok = xs1 @ xs2" "suffix xs1 xs" "prefix xs2 (c # ys)"
    by (auto simp: sublist_append)
  then show "sublist tok xs \<or> sublist tok ys"
  proof cases
    case 1
    then show ?thesis by simp
  next
    case 2
    then have "prefix tok (c # ys) \<or> sublist tok ys" by (simp add: sublist_Cons_right)
    moreover have "\<not> prefix tok (c # ys)"
      using assms by (cases tok) auto
    ultimately show ?thesis by simp
  next
    case 3
    show ?thesis
    proof (cases xs2)
      case Nil
      with 3 show ?thesis by auto
    next
      case (Cons x xs')
      with 3(3) have "x = c" by simp
      with Cons 3(1) assms(1) show ?thesis by simp
    qed
  qed
next
  assume "sublist tok xs \<or> sublist tok ys"
  then show "sublist tok (xs @ c # ys)"
  proof
    assume "sublist tok xs"
    then show ?thesis by (metis sublist_append)
  next
    assume "sublist tok ys"
    then have "sublist tok (c # ys)" by (simp add: sublist_Cons_right)
    then show ?thesis by (metis sublist_append)
  qed
qed

lemma placeholder_letters: "placeholder tok \<Longrightarrow> tok \<noteq> [] \<and> set tok \<subseteq> set ''undefil''"
  by (auto simp: placeholder_def)

lemma sublist_after:
  assumes "xs \<noteq> []" "last xs \<notin> set tok" "tok \<noteq> []"
  shows "sublist tok (xs @ ys) \<longleftrightarrow> sublist tok xs \<or> sublist tok ys"
proof -
  from assms(1) obtain zs where xs: "xs = zs @ [last xs]"
    by (metis append_butlast_last_id)
  have "sublist tok (xs @ ys) \<longleftrightarrow> sublist tok (zs @ last xs # ys)"
    by (subst xs) simp
  also have "\<dots> \<longleftrightarrow> sublist tok zs \<or> sublist tok ys"
    using assms(2,3) by (rule sublist_across)
  also have "sublist tok zs \<longleftrightarrow> sublist tok xs"
    using sublist_across [OF assms(2,3), of zs "[]"] assms(3) xs by simp
  finally show ?thesis .
qed

lemma sublist_join:
  assumes "tok \<noteq> []" "sep \<noteq> []" "last sep \<notin> set tok" "hd sep \<notin> set tok" "\<not> sublist tok sep"
    "\<forall>l\<in>set ls. \<not> sublist tok l"
  shows "\<not> sublist tok (join_strings sep ls)"
  using assms(6)
proof (induction ls rule: induct_list012)
  case 1
  with assms(1) show ?case by simp
next
  case (2 x)
  then show ?case by simp
next
  case (3 x y ys)
  then have ih: "\<not> sublist tok (join_strings sep (y # ys))" and x: "\<not> sublist tok x" by simp_all
  from \<open>sep \<noteq> []\<close> obtain c cs where sep: "sep = c # cs" by (cases sep) auto
  with assms(4) have c: "c \<notin> set tok" by simp
  have "sublist tok (sep @ join_strings sep (y # ys)) \<longleftrightarrow>
        sublist tok sep \<or> sublist tok (join_strings sep (y # ys))"
    using assms(2,3,1) by (rule sublist_after)
  with ih assms(5) have "\<not> sublist tok (sep @ join_strings sep (y # ys))" by simp
  then have "\<not> sublist tok (cs @ join_strings sep (y # ys))"
    using sep by (auto simp: sublist_Cons_right)
  with x show ?case
    using sublist_across [OF c assms(1), of x "cs @ join_strings sep (y # ys)"] sep by simp
qed

lemma digits_foreign: "placeholder tok \<Longrightarrow> \<not> sublist tok (nat_to_string n)"
proof
  assume p: "placeholder tok" and s: "sublist tok (nat_to_string n)"
  from s have "set tok \<subseteq> set (nat_to_string n)" by (rule set_mono_sublist)
  with digits_nat_to_string [of n] have "set tok \<subseteq> set ''0123456789''" by blast
  with p show False by (auto simp: placeholder_def)
qed

lemma last_digit_foreign: "placeholder tok \<Longrightarrow> last (nat_to_string n) \<notin> set tok"
proof -
  assume p: "placeholder tok"
  have "last (nat_to_string n) \<in> set (nat_to_string n)"
    using nat_to_string_nonempty by simp
  with digits_nat_to_string [of n] have "last (nat_to_string n) \<in> set ''0123456789''" by blast
  with p show ?thesis by (auto simp: placeholder_def)
qed

lemma leaves_lookup: "set (leaves P (lookup kvs k)) \<subseteq> set (leaves_props P kvs)"
  by (induction kvs) (auto simp: lookup_def)

lemma free_of_field: "free_of P tok v \<Longrightarrow> named k \<Longrightarrow> free_of P tok (field v k)"
proof (cases v)
  case (JObj kvs)
  assume "free_of P tok v"
  with JObj leaves_lookup [of P kvs k] show ?thesis
    by (auto simp: free_of_def field_def)
next
  case (JArr xs ps)
  assume "free_of P tok v" "named k"
  with JArr leaves_lookup [of P ps k] show ?thesis
    by (auto simp: free_of_def field_def index_of_key_None named_def)
next
  case (JStr s)
  assume "named k"
  with JStr show ?thesis
    by (auto simp: free_of_def field_def index_of_key_None named_def)
qed (auto simp: free_of_def field_def)

lemma leaves_entry: "x \<in> set xs \<Longrightarrow> set (leaves P x) \<subseteq> set (leaves_list P xs)"
  by (induction xs) auto

lemma free_of_entry: "free_of P tok v \<Longrightarrow> x \<in> set (entries v) \<Longrightarrow> free_of P tok x"
  using leaves_entry [of x _ P] by (cases v) (auto simp: free_of_def)

lemma free_of_text: "is_string v \<Longrightarrow> free_of P tok v \<Longrightarrow> \<not> sublist tok (text_of v)"
  by (cases v) (auto simp: free_of_def)

lemma to_string_text: "is_string v \<Longrightarrow> to_string P v = Inr (text_of v)"
  by (cases v) auto

lemma optional_text_cases: "optional_text v \<Longrightarrow> \<not> truthy v \<or> is_string v"
  by (auto simp: optional_text_def unset_def)

lemma unset_falsy: "unset v \<Longrightarrow> \<not> truthy v"
  by (auto simp: unset_def)

lemma list_of_cases: "list_of good v \<Longrightarrow> \<exists>xs ps. v = JArr xs ps \<and> (\<forall>x\<in>set xs. good x)"
  by (cases v) (auto simp: list_of_def list_all_iff)

lemma labelled_stage:
  assumes "optional_text v"
  shows "\<exists>part. labelled P label v ps = Inr (ps @ part) \<and>
           (\<forall>tok. tok \<noteq> [] \<longrightarrow> label \<noteq> [] \<longrightarrow> \<not> sublist tok label \<longrightarrow> last label \<notin> set tok \<longrightarrow>
                  free_of P tok v \<longrightarrow> (\<forall>x\<in>set part. \<not> sublist tok x))"
proof (cases "truthy v")
  case False
  then have "labelled P label v ps = Inr (ps @ [])" by (simp add: labelled_def)
  then show ?thesis by (intro exI [of _ "[]"]) simp
next
  case True
  with assms have s: "is_string v" by (auto dest: optional_text_cases)
  with True have "labelled P label v ps = Inr (ps @ [label @ text_of v])"
    by (simp add: labelled_def to_string_text)
  moreover have "\<not> sublist tok (label @ text_of v)"
    if "tok \<noteq> []" "label \<noteq> []" "\<not> sublist tok label" "last label \<notin> set tok" "free_of P tok v" for tok
    using that free_of_text [OF s, of P tok] by (simp add: sublist_after)
  ultimately show ?thesis by (intro exI [of _ "[label @ text_of v]"]) simp
qed

lemma join_elems_texts:
  "\<forall>x\<in>set xs. is_string x \<Longrightarrow> join_elems P sep xs = Inr (join_strings sep (map text_of xs))"
proof (induction xs rule: induct_list012)
  case 1
  then show ?case by simp
next
  case (2 x)
  then show ?case by (cases x) auto
next
  case (3 x y zs)
  then have "join_elems P sep (y # zs) = Inr (join_strings sep (map text_of (y # zs)))" by simp
  moreover from 3(3) have "elem_string P x = Inr (text_of x)" by (cases x) auto
  ultimately show ?case by simp
qed

lemma map_r_texts:
  "(\<And>x. x \<in> set xs \<Longrightarrow> f x = Inr (g x)) \<Longrightarrow> map_r f xs = Inr (map g xs)"
  by (induction xs) auto

lemma map_index_r_texts:
  "(\<And>x i. x \<in> set xs \<Longrightarrow> f x i = Inr (g x i)) \<Longrightarrow>
   map_index_r f n xs = Inr (map (\<lambda>(i, x). g x i) (List.enumerate n xs))"
  by (induction xs arbitrary: n) auto

lemma tone_stage:
  assumes "optional_text tone \<or> list_of is_string tone"
  shows "\<exists>part. (if truthy tone then
             bind (if is_array tone then js_join P tone '', '' else to_string P tone) (\<lambda>t.
             Inr (ps @ [''Tone: '' @ t]))
           else Inr ps) = Inr (ps @ part) \<and>
           (\<forall>tok. placeholder tok \<longrightarrow> free_of P tok tone \<longrightarrow> (\<forall>x\<in>set part. \<not> sublist tok x))"
proof (cases "truthy tone")
  case False
  then show ?thesis by (intro exI [of _ "[]"]) simp
next
  case True
  have lab: "\<not> sublist tok (''Tone: '' @ t)" if "placeholder tok" "\<not> sublist tok t" for tok t
  proof -
    from that(1) have "tok \<noteq> []" "\<not> sublist tok ''Tone: ''" "last ''Tone: '' \<notin> set tok"
      by (auto simp: placeholder_def sublist_code)
    with that(2) show ?thesis by (subst sublist_after) simp_all
  qed
  show ?thesis
  proof (cases "is_array tone")
    case False
    with assms True have s: "is_string tone"
      by (auto dest: optional_text_cases simp: list_of_def)
    with True False have "(if truthy tone then
             bind (if is_array tone then js_join P tone '', '' else to_string P tone) (\<lambda>t.
             Inr (ps @ [''Tone: '' @ t]))
           else Inr ps) = Inr (ps @ [''Tone: '' @ text_of tone])"
      by (simp add: to_string_text)
    moreover have "\<not> sublist tok (''Tone: '' @ text_of tone)" if "placeholder tok" "free_of P tok tone" for tok
      using that free_of_text [OF s, of P tok] by (intro lab)
    ultimately show ?thesis by (intro exI [of _ "[''Tone: '' @ text_of tone]"]) simp
  next
    case arr: True
    then have "\<not> optional_text tone" by (cases tone) (auto simp: optional_text_def unset_def)
    with assms obtain xs qs where t: "tone = JArr xs qs" and xs: "\<forall>x\<in>set xs. is_string x"
      by (auto dest: list_of_cases)
    let ?t = "join_strings '', '' (map text_of xs)"
    from t xs have "(if truthy tone then
             bind (if is_array tone then js_join P tone '', '' else to_string P tone) (\<lambda>t.
             Inr (ps @ [''Tone: '' @ t]))
           else Inr ps) = Inr (ps @ [''Tone: '' @ ?t])"
      by (simp add: js_join_def join_elems_texts)
    moreover have "\<not> sublist tok (''Tone: '' @ ?t)" if p: "placeholder tok" and f: "free_of P tok tone" for tok
    proof -
      have "\<not> sublist tok (text_of x)" if "x \<in> set xs" for x
      proof -
        from that xs have "is_string x" by simp
        moreover from that f t have "free_of P tok x" by (auto intro: free_of_entry)
        ultimately show ?thesis by (rule free_of_text)
      qed
      then have "\<forall>l\<in>set (map text_of xs). \<not> sublist tok l" by auto
      moreover from p have "tok \<noteq> []" "last '', '' \<notin> set tok" "hd '', '' \<notin> set tok" "\<not> sublist tok '', ''"
        by (auto simp: placeholder_def sublist_code)
      ultimately have "\<not> sublist tok ?t" by (intro sublist_join) simp_all
      with p show ?thesis by (rule lab)
    qed
    ultimately show ?thesis by (intro exI [of _ "[''Tone: '' @ ?t]"]) simp
  qed
qed

lemma clean_lit_then:
  "tok \<noteq> [] \<Longrightarrow> L \<noteq> [] \<Longrightarrow> last L \<notin> set tok \<Longrightarrow> \<not> sublist tok L \<Longrightarrow> \<not> sublist tok ys \<Longrightarrow>
   \<not> sublist tok (L @ ys)"
  by (simp add: sublist_after)

lemma clean_then_lit:
  assumes "tok \<noteq> []" "L \<noteq> []" "hd L \<notin> set tok" "\<not> sublist tok xs" "\<not> sublist tok (L @ ys)"
  shows "\<not> sublist tok (xs @ L @ ys)"
proof -
  from assms(2) obtain c cs where L: "L = c # cs" by (cases L) auto
  with assms(3) have c: "c \<notin> set tok" by simp
  from assms(5) L have "\<not> sublist tok (cs @ ys)" by (auto simp: sublist_Cons_right)
  with assms(4) sublist_across [OF c assms(1), of xs "cs @ ys"] L show ?thesis by simp
qed

lemma clean_numbered:
  assumes "placeholder tok" "\<not> sublist tok t"
  shows "\<not> sublist tok (nat_to_string n @ ''. '' @ t)"
proof -
  from assms(1) have tok: "tok \<noteq> []" and dot: "last ''. '' \<notin> set tok" "\<not> sublist tok ''. ''"
    by (auto simp: placeholder_def sublist_code)
  have "\<not> sublist tok (''. '' @ t)"
    using tok _ dot assms(2) by (rule clean_lit_then) simp
  with tok nat_to_string_nonempty last_digit_foreign [OF assms(1)] digits_foreign [OF assms(1)]
  show ?thesis by (rule clean_lit_then)
qed

lemma clean_character:
  assumes "placeholder tok" "\<not> sublist tok a" "\<not> sublist tok d"
  shows "\<not> sublist tok (''- '' @ a @ '': '' @ d)"
proof -
  from assms(1) have tok: "tok \<noteq> []" and l1: "last ''- '' \<notin> set tok" "\<not> sublist tok ''- ''"
    and l2: "hd '': '' \<notin> set tok" "last '': '' \<notin> set tok" "\<not> sublist tok '': ''"
    by (auto simp: placeholder_def sublist_code)
  have "\<not> sublist tok ('': '' @ d)"
    using tok _ l2(2,3) assms(3) by (rule clean_lit_then) simp
  then have m: "\<not> sublist tok (a @ '': '' @ d)"
    using tok l2(1) assms(2) by (intro clean_then_lit) simp_all
  show ?thesis using tok _ l1 m by (rule clean_lit_then) simp
qed

lemma clean_lines:
  assumes "placeholder tok" "\<forall>l\<in>set ls. \<not> sublist tok l"
  shows "\<not> sublist tok (join_strings ''\<newline>'' ls)"
proof -
  from assms(1) have "tok \<noteq> []" "last ''\<newline>'' \<notin> set tok" "hd ''\<newline>'' \<notin> set tok" "\<not> sublist tok ''\<newline>''"
    by (auto simp: placeholder_def sublist_code)
  with assms(2) show ?thesis by (intro sublist_join) simp_all
qed

lemma characters_stage:
  assumes "unset characters \<or> list_of character_ok characters"
  shows "\<exists>part. (if truthy characters then
             bind (js_map characters (character_line P)) (\<lambda>ls.
             Inr (ps @ [''Characters:\<newline>'' @ join_strings ''\<newline>'' ls]))
           else Inr ps) = Inr (ps @ part) \<and>
           (\<forall>tok. placeholder tok \<longrightarrow> free_of P tok characters \<longrightarrow> (\<forall>x\<in>set part. \<not> sublist tok x))"
proof (cases "truthy characters")
  case False
  then show ?thesis by (intro exI [of _ "[]"]) simp
next
  case True
  with assms obtain cs qs where c: "characters = JArr cs qs" and cs: "\<forall>x\<in>set cs. character_ok x"
    by (auto dest: list_of_cases unset_falsy)
  let ?line = "\<lambda>c. ''- '' @ text_of (field c ''name'') @ '': '' @ text_of (field c ''description'')"
  have line: "character_line P x = Inr (?line x)" if "x \<in> set cs" for x
    using that cs by (auto simp: character_line_def character_ok_def get_prop_field to_string_text)
  then have m: "map_r (character_line P) cs = Inr (map ?line cs)" by (rule map_r_texts)
  let ?out = "''Characters:\<newline>'' @ join_strings ''\<newline>'' (map ?line cs)"
  from c m have "(if truthy characters then
             bind (js_map characters (character_line P)) (\<lambda>ls.
             Inr (ps @ [''Characters:\<newline>'' @ join_strings ''\<newline>'' ls]))
           else Inr ps) = Inr (ps @ [?out])"
    by (simp add: js_map_def)
  moreover have "\<not> sublist tok ?out" if p: "placeholder tok" and f: "free_of P tok characters" for tok
  proof -
    have "\<not> sublist tok (?line x)" if x: "x \<in> set cs" for x
    proof -
      from x f c have fx: "free_of P tok x" by (auto intro: free_of_entry)
      from x cs have s: "is_string (field x ''name'')" "is_string (field x ''description'')"
        by (auto simp: character_ok_def)
      have "\<not> sublist tok (text_of (field x ''name''))"
        using s(1) fx by (intro free_of_text free_of_field) (simp_all add: named_def)
      moreover have "\<not> sublist tok (text_of (field x ''description''))"
        using s(2) fx by (intro free_of_text free_of_field) (simp_all add: named_def)
      ultimately show ?thesis using p by (intro clean_character)
    qed
    then have "\<not> sublist tok (join_strings ''\<newline>'' (map ?line cs))"
      using p by (intro clean_lines) auto
    moreover from p have "tok \<noteq> []" "last ''Characters:\<newline>'' \<notin> set tok" "\<not> sublist tok ''Characters:\<newline>''"
      by (auto simp: placeholder_def sublist_code)
    ultimately show ?thesis by (intro clean_lit_then [where L = "''Characters:\<newline>''"]) simp_all
  qed
  ultimately show ?thesis by (intro exI [of _ "[?out]"]) simp
qed

lemma shots_stage:
  assumes "unset shots \<or> list_of is_string shots"
  shows "\<exists>part. (if truthy shots then
             bind (js_map_index shots (numbered_line P)) (\<lambda>ls.
             Inr (ps @ [''Shot ideas:\<newline>'' @ join_strings ''\<newline>'' ls]))
           else Inr ps) = Inr (ps @ part) \<and>
           (\<forall>tok. placeholder tok \<longrightarrow> free_of P tok shots \<longrightarrow> (\<forall>x\<in>set part. \<not> sublist tok x))"
proof (cases "truthy shots")
  case False
  then show ?thesis by (intro exI [of _ "[]"]) simp
next
  case True
  with assms obtain ss qs where c: "shots = JArr ss qs" and ss: "\<forall>x\<in>set ss. is_string x"
    by (auto dest: list_of_cases unset_falsy)
  let ?line = "\<lambda>s i. nat_to_string (i + 1) @ ''. '' @ text_of s"
  have line: "numbered_line P x i = Inr (?line x i)" if "x \<in> set ss" for x i
    using that ss by (auto simp: numbered_line_def to_string_text)
  then have m: "map_index_r (numbered_line P) 0 ss = Inr (map (\<lambda>(i, x). ?line x i) (List.enumerate 0 ss))"
    by (rule map_index_r_texts)
  let ?out = "''Shot ideas:\<newline>'' @ join_strings ''\<newline>'' (map (\<lambda>(i, x). ?line x i) (List.enumerate 0 ss))"
  from c m have "(if truthy shots then
             bind (js_map_index shots (numbered_line P)) (\<lambda>ls.
             Inr (ps @ [''Shot ideas:\<newline>'' @ join_strings ''\<newline>'' ls]))
           else Inr ps) = Inr (ps @ [?out])"
    by (simp add: js_map_index_def)
  moreover have "\<not> sublist tok ?out" if p: "placeholder tok" and f: "free_of P tok shots" for tok
  proof -
    have "\<not> sublist tok (?line x i)" if x: "x \<in> set ss" for x i
    proof -
      from x f c have "free_of P tok x" by (auto intro: free_of_entry)
      with x ss have "\<not> sublist tok (text_of x)" by (intro free_of_text) simp_all
      with p show ?thesis by (rule clean_numbered)
    qed
    then have "\<forall>l\<in>set (map (\<lambda>(i, x). ?line x i) (List.enumerate 0 ss)). \<not> sublist tok l"
      by (auto simp: in_set_enumerate_eq)
    with p have "\<not> sublist tok (join_strings ''\<newline>'' (map (\<lambda>(i, x). ?line x i) (List.enumerate 0 ss)))"
      by (rule clean_lines)
    moreover from p have "tok \<noteq> []" "last ''Shot ideas:\<newline>'' \<notin> set tok" "\<not> sublist tok ''Shot ideas:\<newline>''"
      by (auto simp: placeholder_def sublist_code)
    ultimately show ?thesis by (intro clean_lit_then [where L = "''Shot ideas:\<newline>''"]) simp_all
  qed
  ultimately show ?thesis by (intro exI [of _ "[?out]"]) simp
qed

lemma label_facts:
  assumes "placeholder tok"
  shows "\<not> sublist tok ''Concept: ''" "last ''Concept: '' \<notin> set tok"
    "\<not> sublist tok ''Narrative: ''" "last ''Narrative: '' \<notin> set tok"
    "\<not> sublist tok ''Style notes: ''" "last ''Style notes: '' \<notin> set tok"
    "\<not> sublist tok ''Constraints: ''" "last ''Constraints: '' \<notin> set tok"
    "tok \<noteq> []"
  using assms by (auto simp: placeholder_def sublist_code)

lemma formatStructuredInput_clean:
  assumes "present input" "structured_fields input"
  shows "\<exists>s. formatStructuredInput P input = Inr s \<and>
           (\<forall>tok. placeholder tok \<longrightarrow> free_of P tok input \<longrightarrow> \<not> sublist tok s)"
proof -
  note g = get_prop_field [OF assms(1)]
  from assms(2) have
    f1: "optional_text (field input ''concept'')"
    and f2: "optional_text (field input ''tone'') \<or> list_of is_string (field input ''tone'')"
    and f3: "optional_text (field input ''narrative'')"
    and f4: "unset (field input ''characters'') \<or> list_of character_ok (field input ''characters'')"
    and f5: "unset (field input ''shots'') \<or> list_of is_string (field input ''shots'')"
    and f6: "optional_text (field input ''style'')"
    and f7: "optional_text (field input ''constraints'')"
    by (simp_all add: structured_fields_def)
  from labelled_stage [OF f1, of P "''Concept: ''" "[]"] obtain p1 where
    1: "labelled P ''Concept: '' (field input ''concept'') [] = Inr p1"
    and c1: "\<And>tok. placeholder tok \<Longrightarrow> free_of P tok (field input ''concept'') \<Longrightarrow> \<forall>x\<in>set p1. \<not> sublist tok x"
    using label_facts by auto
  from tone_stage [OF f2, of P p1] obtain q2 where
    2: "(if truthy (field input ''tone'') then
             bind (if is_array (field input ''tone'') then js_join P (field input ''tone'') '', ''
                   else to_string P (field input ''tone'')) (\<lambda>t.
             Inr (p1 @ [''Tone: '' @ t]))
           else Inr p1) = Inr (p1 @ q2)"
    and c2: "\<And>tok. placeholder tok \<Longrightarrow> free_of P tok (field input ''tone'') \<Longrightarrow> \<forall>x\<in>set q2. \<not> sublist tok x"
    by auto
  from labelled_stage [OF f3, of P "''Narrative: ''" "p1 @ q2"] obtain q3 where
    3: "labelled P ''Narrative: '' (field input ''narrative'') (p1 @ q2) = Inr ((p1 @ q2) @ q3)"
    and c3: "\<And>tok. placeholder tok \<Longrightarrow> free_of P tok (field input ''narrative'') \<Longrightarrow> \<forall>x\<in>set q3. \<not> sublist tok x"
    using label_facts by auto
  from characters_stage [OF f4, of P "(p1 @ q2) @ q3"] obtain q4 where
    4: "(if truthy (field input ''characters'') then
             bind (js_map (field input ''characters'') (character_line P)) (\<lambda>ls.
             Inr (((p1 @ q2) @ q3) @ [''Characters:\<newline>'' @ join_strings ''\<newline>'' ls]))
           else Inr ((p1 @ q2) @ q3)) = Inr (((p1 @ q2) @ q3) @ q4)"
    and c4: "\<And>tok. placeholder tok \<Longrightarrow> free_of P tok (field input ''characters'') \<Longrightarrow> \<forall>x\<in>set q4. \<not> sublist tok x"
    by auto
  from shots_stage [OF f5, of P "((p1 @ q2) @ q3) @ q4"] obtain q5 where
    5: "(if truthy (field input ''shots'') then
             bind (js_map_index (field input ''shots'') (numbered_line P)) (\<lambda>ls.
             Inr ((((p1 @ q2) @ q3) @ q4) @ [''Shot ideas:\<newline>'' @ join_strings ''\<newline>'' ls]))
           else Inr (((p1 @ q2) @ q3) @ q4)) = Inr ((((p1 @ q2) @ q3) @ q4) @ q5)"
    and c5: "\<And>tok. placeholder tok \<Longrightarrow> free_of P tok (field input ''shots'') \<Longrightarrow> \<forall>x\<in>set q5. \<not> sublist tok x"
    by auto
  from labelled_stage [OF f6, of P "''Style notes: ''" "(((p1 @ q2) @ q3) @ q4) @ q5"] obtain q6 where
    6: "labelled P ''Style notes: '' (field input ''style'') ((((p1 @ q2) @ q3) @ q4) @ q5) =
          Inr (((((p1 @ q2) @ q3) @ q4) @ q5) @ q6)"
    and c6: "\<And>tok. placeholder tok \<Longrightarrow> free_of P tok (field input ''style'') \<Longrightarrow> \<forall>x\<in>set q6. \<not> sublist tok x"
    using label_facts by auto
  from labelled_stage [OF f7, of P "''Constraints: ''" "((((p1 @ q2) @ q3) @ q4) @ q5) @ q6"] obtain q7 where
    7: "labelled P ''Constraints: '' (field input ''constraints'') (((((p1 @ q2) @ q3) @ q4) @ q5) @ q6) =
          Inr ((((((p1 @ q2) @ q3) @ q4) @ q5) @ q6) @ q7)"
    and c7: "\<And>tok. placeholder tok \<Longrightarrow> free_of P tok (field input ''constraints'') \<Longrightarrow> \<forall>x\<in>set q7. \<not> sublist tok x"
    using label_facts by auto
  let ?parts = "(((((p1 @ q2) @ q3) @ q4) @ q5) @ q6) @ q7"
  have out: "formatStructuredInput P input = Inr (join_strings ''\<newline>\<newline>'' ?parts)"
    unfolding formatStructuredInput_def g bind_Inr 1 2 3 4 5 6 7 ..
  have "\<not> sublist tok (join_strings ''\<newline>\<newline>'' ?parts)" if p: "placeholder tok" and f: "free_of P tok input" for tok
  proof -
    have n: "named ''concept''" "named ''tone''" "named ''narrative''" "named ''characters''" "named ''shots''"
      "named ''style''" "named ''constraints''"
      by (simp_all add: named_def)
    have "\<forall>x\<in>set ?parts. \<not> sublist tok x"
      using c1 [OF p] c2 [OF p] c3 [OF p] c4 [OF p] c5 [OF p] c6 [OF p] c7 [OF p] n
        free_of_field [OF f]
      by auto
    moreover from p have "tok \<noteq> []" "last ''\<newline>\<newline>'' \<notin> set tok" "hd ''\<newline>\<newline>'' \<notin> set tok" "\<not> sublist tok ''\<newline>\<newline>''"
      by (auto simp: placeholder_def sublist_code)
    ultimately show ?thesis by (intro sublist_join) simp_all
  qed
  with out show ?thesis by blast
qed

lemma clean_reference:
  assumes "placeholder tok" "\<not> sublist tok d" "\<not> sublist tok u"
  shows "\<not> sublist tok (nat_to_string n @ ''. '' @ d @ '' ('' @ u @ '')'')"
proof -
  from assms(1) have tok: "tok \<noteq> []"
    and l: "hd '' ('' \<notin> set tok" "last '' ('' \<notin> set tok" "\<not> sublist tok '' (''"
      "hd '')'' \<notin> set tok" "\<not> sublist tok '')''"
    by (auto simp: placeholder_def sublist_code)
  have "\<not> sublist tok (u @ '')'' @ [])"
    using tok _ l(4) assms(3) by (rule clean_then_lit) (simp_all add: l(5))
  then have a: "\<not> sublist tok (u @ '')'')" by simp
  have b: "\<not> sublist tok ('' ('' @ u @ '')'')"
    using tok _ l(2,3) a by (rule clean_lit_then) simp
  have "\<not> sublist tok (d @ '' ('' @ u @ '')'')"
    using tok _ l(1) assms(2) b by (rule clean_then_lit) simp
  with assms(1) show ?thesis by (rule clean_numbered)
qed

lemma references_section_clean:
  assumes "creative_input input"
  shows "\<exists>s. references_section P input = Inr s \<and>
           (\<forall>tok. placeholder tok \<longrightarrow> free_of P tok input \<longrightarrow> \<not> sublist tok s)"
proof (cases "is_string input")
  case True
  then obtain s where "input = JStr s" by (cases input) auto
  then have "references_section P input = Inr []"
    by (simp add: references_section_def index_of_key_None)
  then show ?thesis by (auto simp: placeholder_def)
next
  case False
  with assms have pr: "present input"
    and refs: "unset (field input ''references'') \<or> list_of reference_ok (field input ''references'')"
    by (auto simp: creative_input_def)
  note g = get_prop_field [OF pr]
  show ?thesis
  proof (cases "truthy (field input ''references'')")
    case False
    then have "references_section P input = Inr []" by (simp add: references_section_def g)
    then show ?thesis by (auto simp: placeholder_def)
  next
    case True
    with refs obtain rs qs where r: "field input ''references'' = JArr rs qs"
      and rs: "\<forall>x\<in>set rs. reference_ok x"
      by (auto dest: list_of_cases unset_falsy)
    let ?line = "\<lambda>r i. nat_to_string (i + 1) @ ''. '' @ text_of (field r ''description'') @
          (if truthy (field r ''url'') then '' ('' @ text_of (field r ''url'') @ '')'' else [])"
    have line: "reference_line P x i = Inr (?line x i)" if "x \<in> set rs" for x i
    proof -
      from that rs have ok: "present x" "is_string (field x ''description'')" "optional_text (field x ''url'')"
        by (auto simp: reference_ok_def)
      from ok(3) have "\<not> truthy (field x ''url'') \<or> is_string (field x ''url'')"
        by (rule optional_text_cases)
      with ok(1,2) show ?thesis
        by (auto simp: reference_line_def get_prop_field to_string_text)
    qed
    then have m: "map_index_r (reference_line P) 0 rs = Inr (map (\<lambda>(i, x). ?line x i) (List.enumerate 0 rs))"
      by (rule map_index_r_texts)
    let ?lines = "map (\<lambda>(i, x). ?line x i) (List.enumerate 0 rs)"
    have clean: "\<not> sublist tok (''\<newline>## Visual References\<newline>'' @ join_strings ''\<newline>'' ?lines)"
      if p: "placeholder tok" and f: "free_of P tok input" for tok
    proof -
      have fr: "free_of P tok (JArr rs qs)"
        using free_of_field [OF f, of "''references''"] r by (simp add: named_def)
      have "\<not> sublist tok (?line x i)" if x: "x \<in> set rs" for x i
      proof -
        from x rs have ok: "is_string (field x ''description'')" "optional_text (field x ''url'')"
          by (auto simp: reference_ok_def)
        from x fr have fx: "free_of P tok x" by (auto intro: free_of_entry)
        have d: "\<not> sublist tok (text_of (field x ''description''))"
          using ok(1) fx by (intro free_of_text free_of_field) (simp_all add: named_def)
        show ?thesis
        proof (cases "truthy (field x ''url'')")
          case True
          with ok(2) have "is_string (field x ''url'')" by (auto dest: optional_text_cases)
          then have "\<not> sublist tok (text_of (field x ''url''))"
            using fx by (intro free_of_text free_of_field) (simp_all add: named_def)
          from clean_reference [OF p d this, of "i + 1"] True show ?thesis by simp
        next
          case False
          with clean_numbered [OF p d, of "i + 1"] show ?thesis by simp
        qed
      qed
      then have "\<forall>l\<in>set ?lines. \<not> sublist tok l" by (auto simp: in_set_enumerate_eq)
      with p have "\<not> sublist tok (join_strings ''\<newline>'' ?lines)" by (rule clean_lines)
      moreover from p have "tok \<noteq> []" "last ''\<newline>## Visual References\<newline>'' \<notin> set tok"
        "\<not> sublist tok ''\<newline>## Visual References\<newline>''"
        by (auto simp: placeholder_def sublist_code)
      ultimately show ?thesis
        by (intro clean_lit_then [where L = "''\<newline>## Visual References\<newline>''"]) simp_all
    qed
    show ?thesis
    proof (cases "rs = []")
      case True
      with r have "references_section P input = Inr []"
        by (simp add: references_section_def g js_gt_def to_number_def)
      then show ?thesis by (auto simp: placeholder_def)
    next
      case False
      with r m have "references_section P input =
          Inr (''\<newline>## Visual References\<newline>'' @ join_strings ''\<newline>'' ?lines)"
        by (simp add: references_section_def g js_gt_def to_number_def js_map_index_def)
      with clean show ?thesis by blast
    qed
  qed
qed

lemma input_section_clean:
  assumes "creative_input input"
  shows "\<exists>s. input_section P input = Inr (JStr s) \<and>
           (\<forall>tok. placeholder tok \<longrightarrow> free_of P tok input \<longrightarrow> \<not> sublist tok s)"
proof (cases "is_string input")
  case True
  then obtain s where "input = JStr s" by (cases input) auto
  then show ?thesis by (auto simp: input_section_def free_of_def)
next
  case False
  with assms have pr: "present input"
    and v: "field input ''type'' = JStr ''text'' \<and> is_string (field input ''content'') \<or>
      field input ''type'' = JStr ''deck'' \<and> is_string (field input ''filename'') \<and>
        is_string (field input ''parsedContent'') \<or>
      field input ''type'' = JStr ''structured'' \<and> structured_fields input"
    by (auto simp: creative_input_def)
  note g = get_prop_field [OF pr]
  from v consider
    (plain) "field input ''type'' = JStr ''text''" "is_string (field input ''content'')"
    | (deck) "field input ''type'' = JStr ''deck''" "is_string (field input ''filename'')"
        "is_string (field input ''parsedContent'')"
    | (structured) "field input ''type'' = JStr ''structured''" "structured_fields input"
    by blast
  then show ?thesis
  proof cases
    case plain
    from plain(2) obtain s where s: "field input ''content'' = JStr s"
      by (cases "field input ''content''") auto
    with False plain(1) have "input_section P input = Inr (JStr s)"
      by (simp add: input_section_def g)
    moreover have "\<not> sublist tok s" if "free_of P tok input" for tok
      using free_of_field [OF that, of "''content''"] s by (simp add: named_def free_of_def)
    ultimately show ?thesis by blast
  next
    case deck
    let ?f = "text_of (field input ''filename'')" and ?c = "text_of (field input ''parsedContent'')"
    from False deck have "input_section P input =
        Inr (JStr (''[Parsed from deck: '' @ ?f @ '']\<newline>\<newline>'' @ ?c))"
      by (simp add: input_section_def g to_string_text)
    moreover have "\<not> sublist tok (''[Parsed from deck: '' @ ?f @ '']\<newline>\<newline>'' @ ?c)"
      if p: "placeholder tok" and f: "free_of P tok input" for tok
    proof -
      from p have tok: "tok \<noteq> []"
        and l: "last ''[Parsed from deck: '' \<notin> set tok" "\<not> sublist tok ''[Parsed from deck: ''"
          "hd '']\<newline>\<newline>'' \<notin> set tok" "last '']\<newline>\<newline>'' \<notin> set tok" "\<not> sublist tok '']\<newline>\<newline>''"
        by (auto simp: placeholder_def sublist_code)
      have cf: "\<not> sublist tok ?f"
        using deck(2) f by (intro free_of_text free_of_field) (simp_all add: named_def)
      have cc: "\<not> sublist tok ?c"
        using deck(3) f by (intro free_of_text free_of_field) (simp_all add: named_def)
      have "\<not> sublist tok ('']\<newline>\<newline>'' @ ?c)"
        using tok _ l(4,5) cc by (rule clean_lit_then) simp
      then have "\<not> sublist tok (?f @ '']\<newline>\<newline>'' @ ?c)"
        using tok _ l(3) cf by (intro clean_then_lit) simp_all
      then show ?thesis
        using tok _ l(1,2) by (intro clean_lit_then [where L = "''[Parsed from deck: ''"]) simp_all
    qed
    ultimately show ?thesis by blast
  next
    case structured
    from formatStructuredInput_clean [OF pr structured(2), of P] obtain s where
      "formatStructuredInput P input = Inr s"
      "\<forall>tok. placeholder tok \<longrightarrow> free_of P tok input \<longrightarrow> \<not> sublist tok s"
      by blast
    moreover with False structured(1) have "input_section P input = Inr (JStr s)"
      by (simp add: input_section_def g)
    ultimately show ?thesis by blast
  qed
qed

lemma template_facts:
  assumes "placeholder tok"
  shows "tok \<noteq> []"
    "last ''\<newline>## Creative Input\<newline>\<newline>'' \<notin> set tok" "\<not> sublist tok ''\<newline>## Creative Input\<newline>\<newline>''"
    "hd ''\<newline>'' \<notin> set tok" "last ''\<newline>'' \<notin> set tok" "\<not> sublist tok ''\<newline>''"
    "hd ''\<newline>\<newline>## Requirements\<newline>\<newline>- Target platform: '' \<notin> set tok"
    "last ''\<newline>\<newline>## Requirements\<newline>\<newline>- Target platform: '' \<notin> set tok"
    "\<not> sublist tok ''\<newline>\<newline>## Requirements\<newline>\<newline>- Target platform: ''"
    "hd ''\<newline>- Number of shots: '' \<notin> set tok" "last ''\<newline>- Number of shots: '' \<notin> set tok"
    "\<not> sublist tok ''\<newline>- Number of shots: ''"
    "hd ''\<newline>- Output format: Complete JSON matching the prompt_architecture_schema\<newline>'' \<notin> set tok"
    "last ''\<newline>- Output format: Complete JSON matching the prompt_architecture_schema\<newline>'' \<notin> set tok"
    "\<not> sublist tok ''\<newline>- Output format: Complete JSON matching the prompt_architecture_schema\<newline>''"
    "last ''- Brand context: '' \<notin> set tok" "\<not> sublist tok ''- Brand context: ''"
    "\<not> sublist tok ''infer from content (typically 4-8 for a :15-:30 spot)''"
  using assms by (auto simp: placeholder_def sublist_code)

lemma instructions_facts:
  assumes "placeholder tok"
  shows "hd ''\<newline>\<newline>## Instructions\<newline>\<newline>Analyze this creative input and produce a complete prompt architecture.\<newline>\<newline>You MUST include:\<newline>1. All required schema fields (metadata, project, global_style, shots)\<newline>2. Copy/paste ready prompts for each shot in shots[].prompt.full_prompt\<newline>3. Component breakdown in shots[].prompt.prompt_components\<newline>4. All interpretive decisions you made in the interpretations[] array\<newline>5. Any questions that would improve the output in missing_info[]\<newline>\<newline>For EACH shot prompt, structure it as:\<newline>[Subject with full character description if applicable] + [Action/motion] + [Environment] + [Lighting] + [Camera/framing] + [Style/quality markers]\<newline>\<newline>Output valid JSON only. No markdown, no explanation outside the JSON.\<newline>'' \<notin> set tok"
    "\<not> sublist tok ''\<newline>\<newline>## Instructions\<newline>\<newline>Analyze this creative input and produce a complete prompt architecture.\<newline>\<newline>You MUST include:\<newline>1. All required schema fields (metadata, project, global_style, shots)\<newline>2. Copy/paste ready prompts for each shot in shots[].prompt.full_prompt\<newline>3. Component breakdown in shots[].prompt.prompt_components\<newline>4. All interpretive decisions you made in the interpretations[] array\<newline>5. Any questions that would improve the output in missing_info[]\<newline>\<newline>For EACH shot prompt, structure it as:\<newline>[Subject with full character description if applicable] + [Action/motion] + [Environment] + [Lighting] + [Camera/framing] + [Style/quality markers]\<newline>\<newline>Output valid JSON only. No markdown, no explanation outside the JSON.\<newline>''"
  using assms by (auto simp: placeholder_def sublist_code)

lemma template_clean:
  assumes tok: "tok \<noteq> []"
    and A: "A \<noteq> []" "last A \<notin> set tok" "\<not> sublist tok A"
    and B: "B \<noteq> []" "hd B \<notin> set tok" "last B \<notin> set tok" "\<not> sublist tok B"
    and C: "C \<noteq> []" "hd C \<notin> set tok" "last C \<notin> set tok" "\<not> sublist tok C"
    and D: "D \<noteq> []" "hd D \<notin> set tok" "last D \<notin> set tok" "\<not> sublist tok D"
    and E: "E \<noteq> []" "hd E \<notin> set tok" "last E \<notin> set tok" "\<not> sublist tok E"
    and F: "F \<noteq> []" "hd F \<notin> set tok" "\<not> sublist tok F"
    and s: "\<not> sublist tok s1" "\<not> sublist tok r" "\<not> sublist tok s2" "\<not> sublist tok s3" "\<not> sublist tok s4"
  shows "\<not> sublist tok (A @ s1 @ B @ r @ C @ s2 @ D @ s3 @ E @ s4 @ F)"
proof -
  have "\<not> sublist tok (s4 @ F @ [])"
    using tok F(1,2) s(5) by (rule clean_then_lit) (simp add: F(3))
  then have 1: "\<not> sublist tok (s4 @ F)" by simp
  have 2: "\<not> sublist tok (E @ s4 @ F)" using tok E(1,3,4) 1 by (rule clean_lit_then)
  have 3: "\<not> sublist tok (s3 @ E @ s4 @ F)" using tok E(1,2) s(4) 2 by (rule clean_then_lit)
  have 4: "\<not> sublist tok (D @ s3 @ E @ s4 @ F)" using tok D(1,3,4) 3 by (rule clean_lit_then)
  have 5: "\<not> sublist tok (s2 @ D @ s3 @ E @ s4 @ F)" using tok D(1,2) s(3) 4 by (rule clean_then_lit)
  have 6: "\<not> sublist tok (C @ s2 @ D @ s3 @ E @ s4 @ F)" using tok C(1,3,4) 5 by (rule clean_lit_then)
  have 7: "\<not> sublist tok (r @ C @ s2 @ D @ s3 @ E @ s4 @ F)" using tok C(1,2) s(2) 6 by (rule clean_then_lit)
  have 8: "\<not> sublist tok (B @ r @ C @ s2 @ D @ s3 @ E @ s4 @ F)" using tok B(1,3,4) 7 by (rule clean_lit_then)
  have 9: "\<not> sublist tok (s1 @ B @ r @ C @ s2 @ D @ s3 @ E @ s4 @ F)" using tok B(1,2) s(1) 8 by (rule clean_then_lit)
  show ?thesis using tok A 9 by (rule clean_lit_then)
qed



end
